theory Spec2Isabelle
  imports Complex_Main "HOL-Library.Monad_Syntax"
begin

section \<open>Reson8: the audio engine (\<open>AudioEngine\<close>) and its WAV encoder\<close>

text \<open>
  The development embeds the class \<open>AudioEngine\<close>: the sample encoder
  \<open>bufferToWave\<close>, the buffer helper \<open>cloneBuffer\<close> and the per-channel
  reversal, and the operations \<open>loadFile\<close>, \<open>play\<close>, \<open>pause\<close>, \<open>stop\<close>,
  \<open>updateEffects\<close> and \<open>exportAudio\<close>. The engine's fields, the store of
  sample arrays and the source nodes make up a state that every operation
  takes and returns; an operation that can throw returns the error or the
  value, together with the state it leaves.

  Numbers. A JavaScript number is a double. Samples are elements of a
  \<open>Float32Array\<close>; a float32 value has a 24-bit significand, so its products
  with 32767 and with 32768 are exact in double precision, and so is the sign
  of its sum with 0.5: real arithmetic computes what the encoder computes.
  \<open>NaN\<close> is kept as a value of its own: it is what an out-of-range read
  (\<open>undefined\<close>) becomes under \<open>Math.min\<close>. An infinite sample is clamped
  like any finite sample beyond the range. The duration of a buffer and the
  frame count that \<open>exportAudio\<close> computes from it are doubles, rounded at
  every operation (\<open>fl\<close>). Clock readings and effect parameters are reals;
  sample rates and frame counts are natural numbers.

  The host. The engine runs on the Web Audio API, and three of the host's
  behaviours decide what the engine's code does. Buffers: \<open>getChannelData\<close>
  returns the channel's own array, and \<open>createBuffer\<close>, \<open>decodeAudioData\<close> and
  \<open>startRendering\<close> return buffers with fresh arrays. Source nodes: \<open>start\<close>
  and \<open>stop\<close> raise as described with \<open>node_start\<close> and \<open>node_stop\<close>. Events:
  the host dispatches \<open>ended\<close> to a source node once, when the node has
  stopped playing, whether its buffer was played to the end or \<open>stop()\<close> was
  called on it; the handler in \<open>onended\<close> runs then. What a rendered sample
  is (the delay line, the feedback, the detune) is the host's signal
  processing and a parameter of the model.
\<close>

subsection \<open>Samples and their conversion to 16-bit integers\<close>

datatype sample = Fin real | NaN

text \<open>\<open>Math.max(-1, Math.min(1, x))\<close>: \<open>NaN\<close> propagates.\<close>

definition clamp :: "sample \<Rightarrow> sample" where
  "clamp x = (case x of NaN \<Rightarrow> NaN | Fin r \<Rightarrow> Fin (max (- 1) (min 1 r)))"

text \<open>
  \<open>x | 0\<close> is \<open>ToInt32\<close>: the fraction is dropped (towards zero), the integer
  is reduced modulo \<open>2^32\<close> and read as a signed 32-bit value. \<open>NaN | 0\<close> is 0.
\<close>

definition js_trunc :: "real \<Rightarrow> int" where
  "js_trunc r = (if r < 0 then \<lceil>r\<rceil> else \<lfloor>r\<rfloor>)"

definition toInt32 :: "real \<Rightarrow> int" where
  "toInt32 r =
     (let m = js_trunc r mod 4294967296
      in if 2147483648 \<le> m then m - 4294967296 else m)"

text \<open>
  \<open>(0.5 + sample < 0 ? sample * 32768 : sample * 32767) | 0\<close>. The addition
  binds tighter than the comparison: the test is \<open>(0.5 + sample) < 0\<close>. A
  comparison with \<open>NaN\<close> is false and \<open>NaN * 32767\<close> is \<open>NaN\<close>.
\<close>

definition scale :: "sample \<Rightarrow> int" where
  "scale x =
     (case x of
        NaN \<Rightarrow> 0
      | Fin r \<Rightarrow> toInt32 (if 1 / 2 + r < 0 then r * 32768 else r * 32767))"

subsection \<open>Double-precision arithmetic\<close>

text \<open>
  An arithmetic operation on doubles returns the exact result rounded to the
  nearest double. The numbers rounded here (durations in seconds, frame
  counts) are far from the overflow and underflow thresholds, which are left
  out.
\<close>

text \<open>
  The nearest integer, a tie going to the even one.
\<close>

definition round_even :: "real \<Rightarrow> int" where
  "round_even y =
     (let f = \<lfloor>y\<rfloor>; d = y - of_int f
      in if d < 1 / 2 then f else if 1 / 2 < d then f + 1 else if even f then f else f + 1)"

text \<open>
  The binade of a positive number: how often it is halved until it is below 2,
  or doubled until it is at least 1.
\<close>

function halvings :: "real \<Rightarrow> nat" where
  "halvings x = (if 2 \<le> x then Suc (halvings (x / 2)) else 0)"
  by pat_completeness auto
termination
proof (relation "measure (\<lambda>x. nat \<lfloor>x\<rfloor>)")
  show "wf (measure (\<lambda>x::real. nat \<lfloor>x\<rfloor>))" by simp
next
  fix x :: real
  assume "2 \<le> x"
  then have "x / 2 \<le> x - 1" by simp
  then have "\<lfloor>x / 2\<rfloor> \<le> \<lfloor>x - 1\<rfloor>" by (rule floor_mono)
  moreover have "1 \<le> \<lfloor>x\<rfloor>" using \<open>2 \<le> x\<close> by (simp add: le_floor_iff)
  ultimately show "(x / 2, x) \<in> measure (\<lambda>x. nat \<lfloor>x\<rfloor>)" by simp
qed

function doublings :: "real \<Rightarrow> nat" where
  "doublings x = (if 0 < x \<and> x < 1 then Suc (doublings (2 * x)) else 0)"
  by pat_completeness auto
termination
proof (relation "measure (\<lambda>x. nat \<lfloor>1 / x\<rfloor>)")
  show "wf (measure (\<lambda>x::real. nat \<lfloor>1 / x\<rfloor>))" by simp
next
  fix x :: real
  assume x: "0 < x \<and> x < 1"
  define y where "y = 1 / x"
  from x have y: "1 < y" by (simp add: y_def)
  have "\<lfloor>y / 2\<rfloor> < \<lfloor>y\<rfloor>"
  proof (cases "y < 2")
    case True
    with y have "\<lfloor>y / 2\<rfloor> = 0" by (simp add: floor_eq_iff)
    moreover from y have "1 \<le> \<lfloor>y\<rfloor>" by (simp add: le_floor_iff)
    ultimately show ?thesis by simp
  next
    case False
    then have "y / 2 \<le> y - 1" by simp
    then have "\<lfloor>y / 2\<rfloor> \<le> \<lfloor>y - 1\<rfloor>" by (rule floor_mono)
    then show ?thesis by simp
  qed
  moreover have "1 / (2 * x) = y / 2" by (simp add: y_def)
  ultimately have "\<lfloor>1 / (2 * x)\<rfloor> < \<lfloor>1 / x\<rfloor>" by (simp only: y_def)
  moreover from y have "0 < \<lfloor>1 / x\<rfloor>" by (simp add: y_def)
  ultimately show "(2 * x, x) \<in> measure (\<lambda>x. nat \<lfloor>1 / x\<rfloor>)"
    by (simp del: floor_divide_of_nat_eq)
qed

declare halvings.simps [simp del] doublings.simps [simp del]

text \<open>
  The distance between neighbouring doubles in the binade of \<open>x\<close>: a double
  has a significand of 53 bits.
\<close>

definition ulp :: "real \<Rightarrow> real" where
  "ulp x =
     (if 1 \<le> \<bar>x\<bar> then 2 ^ halvings \<bar>x\<bar> / 2 ^ 52
      else 1 / (2 ^ doublings \<bar>x\<bar> * 2 ^ 52))"

text \<open>The double nearest to \<open>x\<close> (round to nearest, ties to even).\<close>

definition fl :: "real \<Rightarrow> real" where
  "fl x = (if x = 0 then 0 else ulp x * of_int (round_even (x / ulp x)))"

subsection \<open>Bytes and the \<open>DataView\<close>\<close>

type_synonym byte = nat

definition le16 :: "nat \<Rightarrow> byte list" where
  "le16 n = [n mod 256, n div 256 mod 256]"

definition le32 :: "nat \<Rightarrow> byte list" where
  "le32 n = [n mod 256, n div 256 mod 256, n div 65536 mod 256, n div 16777216 mod 256]"

text \<open>\<open>setInt16\<close> stores its argument modulo \<open>2^16\<close> (two's complement).\<close>

definition int16_bytes :: "int \<Rightarrow> byte list" where
  "int16_bytes v = le16 (nat (v mod 65536))"

text \<open>
  A write of \<open>bs\<close> at byte offset \<open>p\<close>; the \<open>DataView\<close> raises \<open>RangeError\<close>
  (here \<open>None\<close>) when the bytes do not fit into the buffer.
\<close>

definition dv_set :: "nat \<Rightarrow> byte list \<Rightarrow> byte list \<Rightarrow> byte list option" where
  "dv_set p bs v =
     (if p + length bs \<le> length v then Some (take p v @ bs @ drop (p + length bs) v)
      else None)"

text \<open>Reading a field back, as \<open>getUint16\<close> and \<open>getUint32\<close> (little-endian) would.\<close>

definition getUint16 :: "nat \<Rightarrow> byte list \<Rightarrow> nat" where
  "getUint16 p v = v ! p + 256 * v ! (p + 1)"

definition getUint32 :: "nat \<Rightarrow> byte list \<Rightarrow> nat" where
  "getUint32 p v = v ! p + 256 * v ! (p + 1) + 65536 * v ! (p + 2) + 16777216 * v ! (p + 3)"

subsection \<open>Audio buffers in a store of sample arrays\<close>

text \<open>
  An \<open>AudioBuffer\<close> owns one \<open>Float32Array\<close> per channel, and
  \<open>getChannelData\<close> returns the array itself, not a copy. The arrays live in a
  store; a reference is an index into it, and allocation appends. The source
  calls \<open>getChannelData(i)\<close> only with \<open>i\<close> below \<open>numberOfChannels\<close>.
\<close>

type_synonym addr = nat
type_synonym heap = "sample list list"

record audio_buffer =
  sampleRate :: nat
  length_buf :: nat
  chanData :: "addr list"

definition numberOfChannels :: "audio_buffer \<Rightarrow> nat" where
  "numberOfChannels b = length (chanData b)"

text \<open>\<open>duration\<close> is the double \<open>length / sampleRate\<close>.\<close>

definition duration :: "audio_buffer \<Rightarrow> real" where
  "duration b = fl (real (length_buf b) / real (sampleRate b))"

definition getChannelData :: "heap \<Rightarrow> audio_buffer \<Rightarrow> nat \<Rightarrow> sample list" where
  "getChannelData h b i = h ! (chanData b ! i)"

text \<open>\<open>a[p]\<close> on a typed array: \<open>undefined\<close> out of range, which \<open>Math.min\<close> turns into \<open>NaN\<close>.\<close>

definition read_sample :: "sample list \<Rightarrow> nat \<Rightarrow> sample" where
  "read_sample a p = (if p < length a then a ! p else NaN)"

subsection \<open>\<open>bufferToWave\<close>\<close>

text \<open>
  The variables \<open>view\<close>, \<open>pos\<close> and \<open>offset\<close> of \<open>bufferToWave\<close> are shared with
  its local functions \<open>setUint16\<close> and \<open>setUint32\<close>, which write at \<open>pos\<close> and
  advance it.
\<close>

record wave =
  view :: "byte list"
  pos :: nat
  offset :: nat

definition setUint16 :: "nat \<Rightarrow> wave \<Rightarrow> wave option" where
  "setUint16 data w =
     map_option (\<lambda>v. w\<lparr>view := v, pos := pos w + 2\<rparr>) (dv_set (pos w) (le16 data) (view w))"

definition setUint32 :: "nat \<Rightarrow> wave \<Rightarrow> wave option" where
  "setUint32 data w =
     map_option (\<lambda>v. w\<lparr>view := v, pos := pos w + 4\<rparr>) (dv_set (pos w) (le32 data) (view w))"

text \<open>The header, field by field as the source writes it.\<close>

definition write_header :: "nat \<Rightarrow> nat \<Rightarrow> nat \<Rightarrow> wave \<Rightarrow> wave option" where
  "write_header numOfChan rate len w =
     Some w
       \<bind> setUint32 0x46464952
       \<bind> setUint32 (len - 8)
       \<bind> setUint32 0x45564157
       \<bind> setUint32 0x20746d66
       \<bind> setUint32 16
       \<bind> setUint16 1
       \<bind> setUint16 numOfChan
       \<bind> setUint32 rate
       \<bind> setUint32 (rate * 2 * numOfChan)
       \<bind> setUint16 (numOfChan * 2)
       \<bind> setUint16 16
       \<bind> setUint32 0x61746164
       \<bind> (\<lambda>w. setUint32 (len - pos w - 4) w)"

text \<open>
  One pass of the inner loop body: the sample of channel \<open>i\<close> is read at index
  \<open>pos\<close>, clamped, scaled and written at byte \<open>44 + offset\<close>.
\<close>

definition write_sample :: "sample list list \<Rightarrow> nat \<Rightarrow> wave \<Rightarrow> wave option" where
  "write_sample channels i w =
     map_option (\<lambda>v. w\<lparr>view := v, offset := offset w + 2\<rparr>)
       (dv_set (44 + offset w) (int16_bytes (scale (clamp (read_sample (channels ! i) (pos w)))))
          (view w))"

text \<open>\<open>for (i = 0; i < numOfChan; i++) { ... }\<close>\<close>

fun write_frame :: "sample list list \<Rightarrow> nat list \<Rightarrow> wave \<Rightarrow> wave option" where
  "write_frame channels [] w = Some w"
| "write_frame channels (i # is) w =
     (case write_sample channels i w of
        None \<Rightarrow> None
      | Some w' \<Rightarrow> write_frame channels is w')"

lemma write_sample_pos: "write_sample channels i w = Some w' \<Longrightarrow> pos w' = pos w"
  by (auto simp: write_sample_def)

lemma write_frame_pos: "write_frame channels is w = Some w' \<Longrightarrow> pos w' = pos w"
  by (induction "is" arbitrary: w) (auto split: option.splits dest: write_sample_pos)

text \<open>\<open>while (pos < len) { for ... ; pos++ }\<close>\<close>

function write_data :: "sample list list \<Rightarrow> nat \<Rightarrow> nat \<Rightarrow> wave \<Rightarrow> wave option" where
  "write_data channels numOfChan len w =
     (if pos w < len then
        (case write_frame channels [0..<numOfChan] w of
           None \<Rightarrow> None
         | Some w' \<Rightarrow> write_data channels numOfChan len (w'\<lparr>pos := pos w' + 1\<rparr>))
      else Some w)"
  by pat_completeness auto
termination
  by (relation "measure (\<lambda>(channels, numOfChan, len, w). len - pos w)")
     (auto dest: write_frame_pos)

declare write_data.simps [simp del]

text \<open>
  \<open>bufferToWave(abuffer, len)\<close>: the result is the content of the \<open>ArrayBuffer\<close>
  (the bytes of the \<open>Blob\<close>), or \<open>None\<close> if a \<open>DataView\<close> write raised.
\<close>

definition bufferToWave :: "heap \<Rightarrow> audio_buffer \<Rightarrow> nat \<Rightarrow> byte list option" where
  "bufferToWave h abuffer len =
     (let numOfChan = numberOfChannels abuffer;
          length' = len * numOfChan * 2 + 44;
          w0 = \<lparr>view = replicate length' 0, pos = 0, offset = 0\<rparr>
      in case write_header numOfChan (sampleRate abuffer) length' w0 of
           None \<Rightarrow> None
         | Some w1 \<Rightarrow>
             (let channels = map (getChannelData h abuffer) [0..<numberOfChannels abuffer]
              in map_option view (write_data channels numOfChan len w1)))"

subsection \<open>Buffers created by the host, \<open>cloneBuffer\<close> and the per-channel reversal\<close>

text \<open>
  The host creates an \<open>AudioBuffer\<close> of \<open>nc\<close> channels and \<open>len\<close> frames with
  fresh arrays; \<open>f c i\<close> is the sample of channel \<open>c\<close> at frame \<open>i\<close>.
  \<open>createBuffer\<close> fills with zeros.
\<close>

definition alloc_buffer ::
  "nat \<Rightarrow> nat \<Rightarrow> nat \<Rightarrow> (nat \<Rightarrow> nat \<Rightarrow> sample) \<Rightarrow> heap \<Rightarrow> audio_buffer \<times> heap" where
  "alloc_buffer nc len rate f h =
     (\<lparr>sampleRate = rate, length_buf = len, chanData = [length h..<length h + nc]\<rparr>,
      h @ map (\<lambda>c. map (f c) [0..<len]) [0..<nc])"

definition createBuffer :: "nat \<Rightarrow> nat \<Rightarrow> nat \<Rightarrow> heap \<Rightarrow> audio_buffer \<times> heap" where
  "createBuffer nc len rate h = alloc_buffer nc len rate (\<lambda>c i. Fin 0) h"

text \<open>
  \<open>copyToChannel(source, channelNumber)\<close> overwrites the channel's array with
  the samples of \<open>source\<close>, as many as fit.
\<close>

definition copy_samples :: "sample list \<Rightarrow> sample list \<Rightarrow> sample list" where
  "copy_samples source dest = take (length dest) source @ drop (length source) dest"

definition copyToChannel :: "sample list \<Rightarrow> audio_buffer \<Rightarrow> nat \<Rightarrow> heap \<Rightarrow> heap" where
  "copyToChannel source b channelNumber h =
     h[chanData b ! channelNumber := copy_samples source (h ! (chanData b ! channelNumber))]"

definition cloneBuffer :: "audio_buffer \<Rightarrow> heap \<Rightarrow> audio_buffer \<times> heap" where
  "cloneBuffer buffer h =
     (let (newBuffer, h1) =
            createBuffer (numberOfChannels buffer) (length_buf buffer) (sampleRate buffer) h
      in (newBuffer,
          fold (\<lambda>i h'. copyToChannel (getChannelData h' buffer i) newBuffer i h')
            [0..<numberOfChannels buffer] h1))"

text \<open>
  \<open>for (i = 0; i < b.numberOfChannels; i++) Array.prototype.reverse.call(b.getChannelData(i))\<close>:
  each channel's array is reversed in place.
\<close>

definition reverseChannels :: "audio_buffer \<Rightarrow> heap \<Rightarrow> heap" where
  "reverseChannels b h =
     fold (\<lambda>i h'. h'[chanData b ! i := rev (getChannelData h' b i)]) [0..<numberOfChannels b] h"

text \<open>The branch \<open>if (effects.isReversed)\<close> of \<open>createSource\<close> and of \<open>exportAudio\<close>.\<close>

definition reversedBuffer :: "audio_buffer \<Rightarrow> heap \<Rightarrow> audio_buffer \<times> heap" where
  "reversedBuffer cur h = (let (rb, h1) = cloneBuffer cur h in (rb, reverseChannels rb h1))"

subsection \<open>The engine\<close>

record effects =
  pitch :: real
  echoDelay :: real
  echoFeedback :: real
  isReversed :: bool

datatype error =
  NoBufferLoaded | NoAudioToExport | DecodeError | InvalidStateError | RangeError

text \<open>
  A completion handler passed to \<open>play\<close> is identified by a number; the
  engine records every invocation in \<open>fired\<close>.
\<close>

type_synonym callback = nat

text \<open>
  An \<open>AudioBufferSourceNode\<close>: its buffer, its detune parameter (the value and
  the target of a scheduled smoothing), whether \<open>start\<close> and \<open>stop\<close> have been
  called, whether the host has dispatched its \<open>ended\<close> event, and the handler
  in \<open>onended\<close>.
\<close>

record source_node =
  buffer :: audio_buffer
  detune :: real
  detuneTarget :: "real option"
  started :: bool
  stopped :: bool
  ended :: bool
  onended :: "callback option"

text \<open>
  The fields of \<open>AudioEngine\<close>, with the store of sample arrays, the clock and
  the state of the \<open>AudioContext\<close>, every source node created so far
  (\<open>sourceNode\<close> refers to one by its index), and the parameters of the
  delay and feedback nodes.
\<close>

record engine =
  store :: heap
  currentTime :: real
  suspended :: bool
  nodes :: "source_node list"
  sourceNode :: "nat option"
  delayTime :: real
  delayTarget :: "real option"
  feedbackGain :: real
  feedbackTarget :: "real option"
  currentBuffer :: "audio_buffer option"
  startTime :: real
  pauseTime :: real
  isPlaying :: bool
  fired :: "callback list"

text \<open>
  An operation returns normally with a value or throws, and leaves a state
  either way.
\<close>

type_synonym 'a result = "(error + 'a) \<times> engine"

definition and_then :: "'a result \<Rightarrow> ('a \<Rightarrow> engine \<Rightarrow> 'b result) \<Rightarrow> 'b result" where
  "and_then r f = (case r of (Inl err, s) \<Rightarrow> (Inl err, s) | (Inr x, s) \<Rightarrow> f x s)"

text \<open>The constructor; the host decides whether the context starts suspended.\<close>

definition new_engine :: "bool \<Rightarrow> engine" where
  "new_engine susp =
     \<lparr>store = [], currentTime = 0, suspended = susp, nodes = [], sourceNode = None,
      delayTime = 0, delayTarget = None, feedbackGain = 1, feedbackTarget = None,
      currentBuffer = None, startTime = 0, pauseTime = 0, isPlaying = False, fired = []\<rparr>"

text \<open>
  \<open>loadFile\<close>: \<open>decoded\<close> is what \<open>decodeAudioData\<close> yields, \<open>None\<close> when it
  rejects, otherwise the channel count, frame count, sample rate and samples of
  the buffer the host creates.
\<close>

definition loadFile ::
  "(nat \<times> nat \<times> nat \<times> (nat \<Rightarrow> nat \<Rightarrow> sample)) option \<Rightarrow> engine \<Rightarrow> audio_buffer result" where
  "loadFile decoded s =
     (case decoded of
        None \<Rightarrow> (Inl DecodeError, s)
      | Some (nc, len, rate, f) \<Rightarrow>
          (let (audioBuffer, h) = alloc_buffer nc len rate f (store s)
           in (Inr audioBuffer, s\<lparr>store := h, currentBuffer := Some audioBuffer\<rparr>)))"

definition createSource :: "effects \<Rightarrow> engine \<Rightarrow> nat result" where
  "createSource e s =
     (case currentBuffer s of
        None \<Rightarrow> (Inl NoBufferLoaded, s)
      | Some cur \<Rightarrow>
          (let (buf, h) = (if isReversed e then reversedBuffer cur (store s) else (cur, store s));
               source = \<lparr>buffer = buf, detune = pitch e, detuneTarget = None, started = False,
                 stopped = False, ended = False, onended = None\<rparr>
           in (Inr (length (nodes s)), s\<lparr>store := h, nodes := nodes s @ [source]\<rparr>)))"

text \<open>
  \<open>start(0, offset)\<close> and \<open>stop()\<close> of a source node. \<open>start\<close> raises for a
  negative offset and for a node started before. \<open>stop\<close> raises for a node
  that is not playing: never started, or (on the hosts the \<open>catch\<close> in
  \<open>AudioEngine.stop\<close> is written for) halted or finished already. A host
  that follows the current Web Audio specification returns instead of raising
  in the latter case; the node is left as it is either way, and
  \<open>AudioEngine.stop\<close> goes on in the same way after a raise and after a
  return.
\<close>

definition node_start :: "nat \<Rightarrow> real \<Rightarrow> engine \<Rightarrow> unit result" where
  "node_start n off s =
     (if off < 0 then (Inl RangeError, s)
      else if n < length (nodes s) \<and> \<not> started (nodes s ! n)
      then (Inr (), s\<lparr>nodes := (nodes s)[n := (nodes s ! n)\<lparr>started := True\<rparr>]\<rparr>)
      else (Inl InvalidStateError, s))"

definition node_stop :: "nat \<Rightarrow> engine \<Rightarrow> unit result" where
  "node_stop n s =
     (if n < length (nodes s) \<and> started (nodes s ! n) \<and> \<not> stopped (nodes s ! n) \<and>
         \<not> ended (nodes s ! n)
      then (Inr (), s\<lparr>nodes := (nodes s)[n := (nodes s ! n)\<lparr>stopped := True\<rparr>]\<rparr>)
      else (Inl InvalidStateError, s))"

definition stop :: "engine \<Rightarrow> unit result" where
  "stop s =
     (let s1 = (case sourceNode s of
                  None \<Rightarrow> s
                | Some n \<Rightarrow>
                    (case node_stop n s of
                       (Inr _, s') \<Rightarrow> s'
                     | (Inl err, s') \<Rightarrow> s'))
      in (Inr (), s1\<lparr>pauseTime := 0, isPlaying := False\<rparr>))"

definition pause :: "engine \<Rightarrow> unit result" where
  "pause s =
     (case sourceNode s of
        None \<Rightarrow> (Inr (), s)
      | Some n \<Rightarrow>
          if isPlaying s then
            and_then (node_stop n s)
              (\<lambda>_ s1. (Inr (), s1\<lparr>pauseTime := currentTime s1 - startTime s1,
                                   isPlaying := False\<rparr>))
          else (Inr (), s))"

text \<open>
  \<open>play\<close>. The \<open>connect\<close> calls wire the same fixed graph every time and are
  left out. The handler assigned to \<open>onended\<close> closes over \<open>onEnded\<close>; the
  node keeps it.
\<close>

definition play :: "effects \<Rightarrow> callback \<Rightarrow> engine \<Rightarrow> unit result" where
  "play e onEnded s =
     and_then (if isPlaying s then stop s else (Inr (), s))
       (\<lambda>_ s1.
          case currentBuffer s1 of
            None \<Rightarrow> (Inr (), s1)
          | Some _ \<Rightarrow>
              and_then (createSource e (if suspended s1 then s1\<lparr>suspended := False\<rparr> else s1))
                (\<lambda>n s2.
                   let s3 = s2\<lparr>sourceNode := Some n, delayTime := echoDelay e,
                              feedbackGain := echoFeedback e\<rparr>;
                       s4 = s3\<lparr>startTime := currentTime s3 - pauseTime s3\<rparr>
                   in and_then (node_start n (pauseTime s4) s4)
                        (\<lambda>_ s5.
                           let s6 = s5\<lparr>isPlaying := True\<rparr>
                           in (Inr (),
                               s6\<lparr>nodes := (nodes s6)[n := (nodes s6 ! n)\<lparr>onended := Some onEnded\<rparr>]\<rparr>))))"

text \<open>
  The body of the handler that \<open>play\<close> installs, and the host dispatching
  \<open>ended\<close> to node \<open>n\<close>. The event is dispatched at most once per node, to
  a node that has been started: when its buffer has been played to the end
  (the model leaves open when that is) or after \<open>stop()\<close> was called on it.
  Neither \<open>AudioEngine.stop\<close> nor \<open>AudioEngine.pause\<close> removes the handler.
\<close>

definition ended_handler :: "callback \<Rightarrow> engine \<Rightarrow> engine" where
  "ended_handler onEnded s = s\<lparr>isPlaying := False, pauseTime := 0, fired := fired s @ [onEnded]\<rparr>"

definition dispatch_ended :: "nat \<Rightarrow> engine \<Rightarrow> engine" where
  "dispatch_ended n s =
     (if n < length (nodes s) \<and> started (nodes s ! n) \<and> \<not> ended (nodes s ! n) then
        (let s1 = s\<lparr>nodes := (nodes s)[n := (nodes s ! n)\<lparr>ended := True\<rparr>]\<rparr>
         in case onended (nodes s ! n) of
              None \<Rightarrow> s1
            | Some onEnded \<Rightarrow> ended_handler onEnded s1)
      else s)"

text \<open>The clock of the audio context advances by \<open>d\<close> seconds.\<close>

definition advance :: "real \<Rightarrow> engine \<Rightarrow> engine" where
  "advance d s = s\<lparr>currentTime := currentTime s + d\<rparr>"

text \<open>\<open>updateEffects\<close>: \<open>setTargetAtTime\<close> schedules a smoothing towards the target.\<close>

definition updateEffects :: "effects \<Rightarrow> engine \<Rightarrow> engine" where
  "updateEffects e s =
     (let s1 = s\<lparr>delayTarget := Some (echoDelay e), feedbackTarget := Some (echoFeedback e)\<rparr>
      in case sourceNode s1 of
           None \<Rightarrow> s1
         | Some n \<Rightarrow>
             if isPlaying s1
             then s1\<lparr>nodes := (nodes s1)[n := (nodes s1 ! n)\<lparr>detuneTarget := Some (pitch e)\<rparr>]\<rparr>
             else s1)"

subsection \<open>\<open>exportAudio\<close>\<close>

record offline_ctx =
  oc_channels :: nat
  oc_length :: nat
  oc_sampleRate :: nat

text \<open>The frame count of an \<open>OfflineAudioContext\<close> is the integral part of the number given.\<close>

definition OfflineAudioContext :: "nat \<Rightarrow> real \<Rightarrow> nat \<Rightarrow> offline_ctx" where
  "OfflineAudioContext nc len rate =
     \<lparr>oc_channels = nc, oc_length = nat \<lfloor>len\<rfloor>, oc_sampleRate = rate\<rparr>"

text \<open>The graph built in the offline context: the source with its parameters.\<close>

record offline_graph =
  g_buffer :: audio_buffer
  g_detune :: real
  g_delayTime :: real
  g_feedback :: real

text \<open>
  The signal processing is the host's: \<open>render ctx g h c i\<close> is the sample it
  computes for channel \<open>c\<close> and frame \<open>i\<close>. \<open>startRendering\<close> returns a new
  buffer with the channel count, length and sample rate of the context. A
  rendering that the host rejects is not modelled.
\<close>

type_synonym renderer = "offline_ctx \<Rightarrow> offline_graph \<Rightarrow> heap \<Rightarrow> nat \<Rightarrow> nat \<Rightarrow> sample"

definition startRendering ::
  "renderer \<Rightarrow> offline_ctx \<Rightarrow> offline_graph \<Rightarrow> heap \<Rightarrow> audio_buffer \<times> heap" where
  "startRendering render ctx g h =
     alloc_buffer (oc_channels ctx) (oc_length ctx) (oc_sampleRate ctx) (render ctx g h) h"

text \<open>
  The local \<open>duration\<close> and the context \<open>offlineCtx\<close> of \<open>exportAudio\<close>:
  the sum \<open>currentBuffer.duration + (echoFeedback > 0 ? 3 : 0)\<close> and the
  product \<open>duration * sampleRate\<close> are doubles, and the context takes the
  integral part of the product as its frame count. \<open>exportAudio\<close> is
  asynchronous; it assigns no field of the engine, and the model runs it as
  one step.
\<close>

definition export_duration :: "effects \<Rightarrow> audio_buffer \<Rightarrow> real" where
  "export_duration e cur = fl (duration cur + (if 0 < echoFeedback e then 3 else 0))"

definition offlineCtx :: "effects \<Rightarrow> audio_buffer \<Rightarrow> offline_ctx" where
  "offlineCtx e cur =
     OfflineAudioContext (numberOfChannels cur)
       (fl (export_duration e cur * real (sampleRate cur))) (sampleRate cur)"

definition exportAudio :: "renderer \<Rightarrow> effects \<Rightarrow> engine \<Rightarrow> (byte list) result" where
  "exportAudio render e s =
     (case currentBuffer s of
        None \<Rightarrow> (Inl NoAudioToExport, s)
      | Some cur \<Rightarrow>
          (let (buf, h1) = (if isReversed e then reversedBuffer cur (store s) else (cur, store s));
               g = \<lparr>g_buffer = buf, g_detune = pitch e, g_delayTime = echoDelay e,
                 g_feedback = echoFeedback e\<rparr>;
               (renderedBuffer, h2) = startRendering render (offlineCtx e cur) g h1
           in case bufferToWave h2 renderedBuffer (length_buf renderedBuffer) of
                None \<Rightarrow> (Inl RangeError, s\<lparr>store := h2\<rparr>)
              | Some bytes \<Rightarrow> (Inr bytes, s\<lparr>store := h2\<rparr>)))"

subsection \<open>The states the engine reaches\<close>

text \<open>
  From the constructor, by the public operations, the clock and the host's
  \<open>ended\<close> events.
\<close>

inductive reachable :: "engine \<Rightarrow> bool" where
  r_new: "reachable (new_engine susp)"
| r_loadFile: "reachable s \<Longrightarrow> reachable (snd (loadFile decoded s))"
| r_play: "reachable s \<Longrightarrow> reachable (snd (play e onEnded s))"
| r_pause: "reachable s \<Longrightarrow> reachable (snd (pause s))"
| r_stop: "reachable s \<Longrightarrow> reachable (snd (stop s))"
| r_updateEffects: "reachable s \<Longrightarrow> reachable (updateEffects e s)"
| r_exportAudio: "reachable s \<Longrightarrow> reachable (snd (exportAudio render e s))"
| r_advance: "reachable s \<Longrightarrow> 0 \<le> d \<Longrightarrow> reachable (advance d s)"
| r_ended: "reachable s \<Longrightarrow> reachable (dispatch_ended n s)"

subsection \<open>The buffers of the scenarios\<close>

text \<open>One channel, 4 frames \<open>[1.0, -1.0, 0.0, 0.5]\<close>, sample rate 8000.\<close>

definition scenario_heap :: heap where
  "scenario_heap = [[Fin 1, Fin (- 1), Fin 0, Fin (1 / 2)]]"

definition scenario_buffer :: audio_buffer where
  "scenario_buffer = \<lparr>sampleRate = 8000, length_buf = 4, chanData = [0]\<rparr>"

text \<open>
  One channel of 45 frames at 8000 Hz: 44 frames of \<open>1.0\<close>, then one frame of
  \<open>-0.25\<close>.
\<close>

definition late_channel :: "sample list" where
  "late_channel = replicate 44 (Fin 1) @ [Fin (- 1 / 4)]"

definition late_heap :: heap where
  "late_heap = [late_channel]"

definition late_buffer :: audio_buffer where
  "late_buffer = \<lparr>sampleRate = 8000, length_buf = 45, chanData = [0]\<rparr>"

text \<open>One channel of \<open>2^31\<close> frames of silence at 44100 Hz: four GiB of PCM data.\<close>

definition long_heap :: heap where
  "long_heap = [replicate 2147483648 (Fin 0)]"

definition long_buffer :: audio_buffer where
  "long_buffer = \<lparr>sampleRate = 44100, length_buf = 2147483648, chanData = [0]\<rparr>"

text \<open>The 44 bytes that \<open>write_header\<close> produces.\<close>

definition header :: "nat \<Rightarrow> nat \<Rightarrow> nat \<Rightarrow> byte list" where
  "header numOfChan rate len =
     le32 0x46464952 @ le32 (len - 8) @ le32 0x45564157 @ le32 0x20746d66 @ le32 16 @
     le16 1 @ le16 numOfChan @ le32 rate @ le32 (rate * 2 * numOfChan) @
     le16 (numOfChan * 2) @ le16 16 @ le32 0x61746164 @ le32 (len - 44)"

subsection \<open>Auxiliary notions\<close>

text \<open>Reversing the array at one address in place.\<close>

definition rev_at :: "addr \<Rightarrow> heap \<Rightarrow> heap" where
  "rev_at a h = h[a := rev (h ! a)]"

text \<open>
  A buffer whose channel references point to allocated arrays of the buffer's
  length, as every buffer the host hands out does.
\<close>

definition valid_buffer :: "heap \<Rightarrow> audio_buffer \<Rightarrow> bool" where
  "valid_buffer h b =
     list_all (\<lambda>a. a < length h \<and> length (h ! a) = length_buf b) (chanData b)"

text \<open>
  The buffer a source is given: the reversed copy or the current buffer itself
  (the \<open>if (effects.isReversed)\<close> of \<open>createSource\<close> and \<open>exportAudio\<close>).
\<close>

definition derived :: "effects \<Rightarrow> audio_buffer \<Rightarrow> heap \<Rightarrow> audio_buffer \<times> heap" where
  "derived e cur h = (if isReversed e then reversedBuffer cur h else (cur, h))"

text \<open>The state in which \<open>play\<close> creates its source: after the restart and the resume.\<close>

definition before_play :: "engine \<Rightarrow> engine" where
  "before_play s =
     (let s1 = (if isPlaying s then snd (stop s) else s)
      in if suspended s1 then s1\<lparr>suspended := False\<rparr> else s1)"

text \<open>The buffer that \<open>exportAudio\<close> renders and then encodes.\<close>

definition rendered :: "renderer \<Rightarrow> effects \<Rightarrow> audio_buffer \<Rightarrow> heap \<Rightarrow> audio_buffer \<times> heap" where
  "rendered render e cur h =
     startRendering render (offlineCtx e cur)
       \<lparr>g_buffer = fst (derived e cur h), g_detune = pitch e, g_delayTime = echoDelay e,
        g_feedback = echoFeedback e\<rparr>
       (snd (derived e cur h))"

text \<open>The current source node is playing: started, not halted, not finished.\<close>

definition playing_node :: "engine \<Rightarrow> bool" where
  "playing_node s =
     (case sourceNode s of
        None \<Rightarrow> False
      | Some n \<Rightarrow> n < length (nodes s) \<and> started (nodes s ! n) \<and> \<not> stopped (nodes s ! n) \<and>
          \<not> ended (nodes s ! n))"

text \<open>
  What holds in every state the engine reaches: the offset is not negative; a
  running engine has a playing source, started no later than now; a started
  source has its completion handler; the current buffer is valid, and without
  one nothing has been played.
\<close>

definition inv :: "engine \<Rightarrow> bool" where
  "inv s \<longleftrightarrow>
     0 \<le> pauseTime s \<and>
     (isPlaying s \<longrightarrow> startTime s \<le> currentTime s \<and> playing_node s) \<and>
     (\<forall>n<length (nodes s). started (nodes s ! n) \<longrightarrow> onended (nodes s ! n) \<noteq> None) \<and>
     (case currentBuffer s of
        None \<Rightarrow> \<not> isPlaying s \<and> pauseTime s = 0 \<and> sourceNode s = None \<and> nodes s = []
      | Some cur \<Rightarrow> valid_buffer (store s) cur)"

subsection \<open>Engines and parameters of the scenarios\<close>

text \<open>The engine after loading the four-frame buffer of the encoder scenario.\<close>

definition scenario_engine :: engine where
  "scenario_engine =
     snd (loadFile (Some (1, 4, 8000, \<lambda>c i. [Fin 1, Fin (- 1), Fin 0, Fin (1 / 2)] ! i))
       (new_engine False))"

definition plain :: effects where
  "plain = \<lparr>pitch = 0, echoDelay = 0, echoFeedback = 0, isReversed = False\<rparr>"

definition reversed_echo :: effects where
  "reversed_echo = \<lparr>pitch = 0, echoDelay = 1 / 4, echoFeedback = 1 / 2, isReversed = True\<rparr>"

text \<open>A mono source of two seconds at 8000 Hz, and an engine holding it.\<close>

definition two_seconds :: audio_buffer where
  "two_seconds = \<lparr>sampleRate = 8000, length_buf = 16000, chanData = [0]\<rparr>"

definition two_seconds_engine :: engine where
  "two_seconds_engine =
     (new_engine False)\<lparr>store := [replicate 16000 (Fin 0)], currentBuffer := Some two_seconds\<rparr>"

text \<open>
  Two silent mono sources, of 1001 frames at 8000 Hz and of 44101 frames at
  44100 Hz, and the engines that have loaded them.
\<close>

definition odd_source :: audio_buffer where
  "odd_source = \<lparr>sampleRate = 8000, length_buf = 1001, chanData = [0]\<rparr>"

definition odd_engine :: engine where
  "odd_engine = snd (loadFile (Some (1, 1001, 8000, \<lambda>c i. Fin 0)) (new_engine False))"

definition cd_source :: audio_buffer where
  "cd_source = \<lparr>sampleRate = 44100, length_buf = 44101, chanData = [0]\<rparr>"

definition cd_engine :: engine where
  "cd_engine = snd (loadFile (Some (1, 44101, 44100, \<lambda>c i. Fin 0)) (new_engine False))"

section \<open>Properties of the double-precision rounding\<close>

text \<open>A number in \<open>[2^k, 2^(k+1))\<close> is halved \<open>k\<close> times; one in \<open>[2^-k, 2^(1-k))\<close> is doubled \<open>k\<close> times.\<close>

lemma halvings_eq:
  "2 ^ k \<le> x \<Longrightarrow> x < 2 ^ Suc k \<Longrightarrow> halvings x = k"
proof (induction k arbitrary: x)
  case 0
  then show ?case by (subst halvings.simps) simp
next
  case (Suc k)
  have "(2::real) \<le> 2 ^ Suc k" by simp
  with Suc.prems have "2 \<le> x" by linarith
  moreover have "halvings (x / 2) = k"
    using Suc.prems by (intro Suc.IH) simp_all
  ultimately show ?case by (subst halvings.simps) simp
qed

lemma doublings_eq:
  "0 < x \<Longrightarrow> 1 \<le> x * 2 ^ k \<Longrightarrow> x * 2 ^ k < 2 \<Longrightarrow> doublings x = k"
proof (induction k arbitrary: x)
  case 0
  then show ?case by (subst doublings.simps) simp
next
  case (Suc k)
  have "(1::real) \<le> 2 ^ k" by simp
  then have "x * 1 \<le> x * 2 ^ k" using Suc.prems(1) by (intro mult_left_mono) simp_all
  moreover from Suc.prems(3) have "x * 2 ^ k < 1" by simp
  ultimately have "x < 1" by linarith
  moreover have "doublings (2 * x) = k"
    using Suc.prems by (intro Suc.IH) (simp_all add: mult.commute mult.left_commute)
  ultimately show ?case using Suc.prems(1) by (subst doublings.simps) simp
qed

lemma halvings_spec:
  "1 \<le> x \<Longrightarrow> 2 ^ halvings x \<le> x \<and> x < 2 ^ Suc (halvings x)"
proof (induction x rule: halvings.induct)
  case (1 x)
  show ?case
  proof (cases "2 \<le> x")
    case True
    then have "1 \<le> x / 2" by simp
    from "1.IH" [OF True this] True show ?thesis
      by (subst (1 2) halvings.simps) simp
  next
    case False
    with "1.prems" show ?thesis by (subst (1 2) halvings.simps) simp
  qed
qed

lemma doublings_spec:
  "0 < x \<Longrightarrow> x < 1 \<Longrightarrow> 1 \<le> x * 2 ^ doublings x \<and> x * 2 ^ doublings x < 2"
proof (induction x rule: doublings.induct)
  case (1 x)
  from "1.prems" have c: "0 < x \<and> x < 1" by simp
  show ?case
  proof (cases "2 * x < 1")
    case True
    with "1.prems" have "0 < 2 * x" by simp
    from "1.IH" [OF c this True] c show ?thesis
      by (subst (1 2) doublings.simps) (simp add: mult.commute mult.left_commute)
  next
    case False
    then have "doublings (2 * x) = 0" by (subst doublings.simps) simp
    with False c show ?thesis
      by (subst (1 2) doublings.simps) (simp add: mult.commute)
  qed
qed

lemma ulp_pos: "0 < ulp x"
  by (simp add: ulp_def)

text \<open>The significand \<open>\<bar>x\<bar> / ulp x\<close> lies in \<open>[2^52, 2^53)\<close>.\<close>

lemma ulp_bounds:
  assumes "x \<noteq> 0"
  shows "ulp x * 2 ^ 52 \<le> \<bar>x\<bar>" "\<bar>x\<bar> < ulp x * 2 ^ 53"
proof -
  show "ulp x * 2 ^ 52 \<le> \<bar>x\<bar>"
  proof (cases "1 \<le> \<bar>x\<bar>")
    case True
    with halvings_spec [OF True] show ?thesis by (simp add: ulp_def)
  next
    case False
    with assms have "0 < \<bar>x\<bar>" "\<bar>x\<bar> < 1" by simp_all
    from doublings_spec [OF this] False show ?thesis
      by (simp add: ulp_def field_simps)
  qed
  show "\<bar>x\<bar> < ulp x * 2 ^ 53"
  proof (cases "1 \<le> \<bar>x\<bar>")
    case True
    with halvings_spec [OF True] show ?thesis by (simp add: ulp_def)
  next
    case False
    with assms have "0 < \<bar>x\<bar>" "\<bar>x\<bar> < 1" by simp_all
    from doublings_spec [OF this] False show ?thesis
      by (simp add: ulp_def field_simps)
  qed
qed

lemma round_even_error: "\<bar>of_int (round_even y) - y\<bar> \<le> 1 / 2"
proof -
  have "of_int \<lfloor>y\<rfloor> \<le> y" "y < of_int \<lfloor>y\<rfloor> + 1" by linarith+
  then show ?thesis
    by (auto simp: round_even_def Let_def)
qed

lemma round_even_of_int: "round_even (of_int n) = n"
  by (simp add: round_even_def)

lemma round_even_nonneg: "0 \<le> y \<Longrightarrow> 0 \<le> round_even y"
  by (auto simp: round_even_def Let_def)

text \<open>Rounding moves a number by at most half a unit in the last place, that is by at most
  the fraction \<open>2^-53\<close> of it.\<close>

lemma fl_error: "\<bar>fl x - x\<bar> \<le> ulp x / 2"
proof (cases "x = 0")
  case True
  then show ?thesis using ulp_pos [of x] by (simp add: fl_def)
next
  case False
  have "fl x - x = ulp x * (of_int (round_even (x / ulp x)) - x / ulp x)"
    using False ulp_pos [of x] by (simp add: fl_def field_simps)
  then have "\<bar>fl x - x\<bar> = ulp x * \<bar>of_int (round_even (x / ulp x)) - x / ulp x\<bar>"
    using ulp_pos [of x] by (simp add: abs_mult)
  also have "\<dots> \<le> ulp x * (1 / 2)"
    using ulp_pos [of x] round_even_error by (intro mult_left_mono) simp_all
  finally show ?thesis by simp
qed

lemma fl_relative_error: "\<bar>fl x - x\<bar> \<le> \<bar>x\<bar> / 2 ^ 53"
proof (cases "x = 0")
  case True
  then show ?thesis by (simp add: fl_def)
next
  case False
  from ulp_bounds(1) [OF False] have "ulp x / 2 \<le> \<bar>x\<bar> / 2 ^ 53" by simp
  with fl_error [of x] show ?thesis by linarith
qed

lemma fl_nonneg: "0 \<le> x \<Longrightarrow> 0 \<le> fl x"
  using ulp_pos [of x] by (simp add: fl_def round_even_nonneg)

text \<open>The natural numbers below \<open>2^53\<close> are doubles.\<close>

lemma fl_of_nat:
  assumes "n < 2 ^ 53"
  shows "fl (real n) = real n"
proof (cases "n = 0")
  case True
  then show ?thesis by (simp add: fl_def)
next
  case False
  then have one: "1 \<le> \<bar>real n\<bar>" by simp
  define h where "h = halvings \<bar>real n\<bar>"
  from halvings_spec [OF one] have "2 ^ h \<le> real n" by (simp add: h_def)
  also have "real n < 2 ^ 53" using assms by (metis of_nat_less_iff of_nat_numeral of_nat_power)
  finally have lt: "(2::real) ^ h < 2 ^ 53" .
  have "h < 53"
  proof (rule ccontr)
    assume "\<not> h < 53"
    then have "53 \<le> h" by simp
    then have "(2::real) ^ 53 \<le> 2 ^ h" by (rule power_increasing) simp
    with lt show False by linarith
  qed
  then have h: "h \<le> 52" by simp
  define m where "m = 52 - h"
  have P: "(2::real) ^ 52 = 2 ^ m * 2 ^ h"
    using h by (simp only: m_def power_add [symmetric]) simp
  have "ulp (real n) = 2 ^ h / 2 ^ 52"
    unfolding ulp_def h_def using one by (simp only: if_True)
  then have u: "ulp (real n) = 1 / 2 ^ m"
    unfolding P by simp
  have "real n / ulp (real n) = of_int (int n * 2 ^ m)"
    by (simp add: u)
  then have "round_even (real n / ulp (real n)) = int n * 2 ^ m"
    by (simp only: round_even_of_int)
  then show ?thesis
    using False by (simp add: fl_def u)
qed

text \<open>The rounding of a number whose binade is known.\<close>

lemma fl_binade_up:
  assumes "2 ^ k \<le> \<bar>x\<bar>" "\<bar>x\<bar> < 2 ^ Suc k"
  shows "fl x = 2 ^ k / 2 ^ 52 * of_int (round_even (x / (2 ^ k / 2 ^ 52)))"
proof -
  have "(1::real) \<le> 2 ^ k" by simp
  with assms(1) have one: "1 \<le> \<bar>x\<bar>" by linarith
  have "halvings \<bar>x\<bar> = k" using assms by (rule halvings_eq)
  then have "ulp x = 2 ^ k / 2 ^ 52" using one by (simp only: ulp_def if_True)
  moreover have "x \<noteq> 0" using one by auto
  ultimately show ?thesis by (simp only: fl_def if_False)
qed

lemma fl_binade_down:
  assumes "\<bar>x\<bar> < 1" "1 \<le> \<bar>x\<bar> * 2 ^ k" "\<bar>x\<bar> * 2 ^ k < 2"
  shows "fl x = 1 / (2 ^ k * 2 ^ 52) * of_int (round_even (x / (1 / (2 ^ k * 2 ^ 52))))"
proof -
  from assms(2) have nz: "x \<noteq> 0" by auto
  then have "0 < \<bar>x\<bar>" by simp
  then have "doublings \<bar>x\<bar> = k" using assms(2,3) by (rule doublings_eq)
  moreover have "\<not> 1 \<le> \<bar>x\<bar>" using assms(1) by simp
  ultimately have "ulp x = 1 / (2 ^ k * 2 ^ 52)" by (simp only: ulp_def if_False)
  with nz show ?thesis by (simp only: fl_def if_False)
qed

text \<open>
  The frame count of \<open>exportAudio\<close>, \<open>(len / rate + t) * rate\<close> with its three
  roundings, is within \<open>7/8\<close> of \<open>len + t * rate\<close> up to \<open>2^50\<close> frames: its
  integral part is that number or one less.
\<close>

lemma frames_close:
  fixes len rate :: nat and t :: real
  assumes rate: "0 < rate" and t: "0 \<le> t" and le: "real len + t * real rate \<le> 2 ^ 50"
  shows "\<bar>fl (fl (fl (real len / real rate) + t) * real rate) - (real len + t * real rate)\<bar>
    \<le> 7 / 8"
proof -
  define r where "r = real rate"
  define a where "a = real len / r"
  define d where "d = fl a"
  define b where "b = d + t"
  define s where "s = fl b"
  define c where "c = s * r"
  define p where "p = fl c"
  define N where "N = real len + t * r"
  define eps where "eps = (1::real) / 2 ^ 53"
  define E where "E = N * eps"
  define X where "X = b * r"
  have r: "0 < r" using rate by (simp add: r_def)
  have eps: "0 \<le> eps" "eps \<le> 1" by (simp_all add: eps_def)
  have a0: "0 \<le> a" using r by (simp add: a_def)
  have ar: "a * r = real len" using r by (simp add: a_def)
  have d0: "0 \<le> d" unfolding d_def using a0 by (rule fl_nonneg)
  have da: "\<bar>d - a\<bar> \<le> a * eps"
    using fl_relative_error [of a] a0 by (simp add: d_def eps_def)
  have b0: "0 \<le> b" using d0 t by (simp add: b_def)
  have s0: "0 \<le> s" unfolding s_def using b0 by (rule fl_nonneg)
  have sb: "\<bar>s - b\<bar> \<le> b * eps"
    using fl_relative_error [of b] b0 by (simp add: s_def eps_def)
  have c0: "0 \<le> c" using s0 r by (simp add: c_def)
  have pc: "\<bar>p - c\<bar> \<le> c * eps"
    using fl_relative_error [of c] c0 by (simp add: p_def eps_def)
  have tr: "0 \<le> t * r" using t r by simp
  have N0: "0 \<le> N" using tr by (simp add: N_def)
  have lenN: "real len \<le> N" using tr by (simp add: N_def)
  have E0: "0 \<le> E" using N0 eps by (simp add: E_def)
  have EN: "E \<le> N"
    using mult_left_mono [OF eps(2) N0] by (simp add: E_def)
  have "N \<le> 2 ^ 50" using le by (simp add: N_def r_def)
  then have "N * eps \<le> 2 ^ 50 * eps" using eps(1) by (rule mult_right_mono)
  then have E8: "E \<le> 1 / 8" by (simp add: E_def eps_def)
  have "\<bar>(d - a) * r\<bar> = \<bar>d - a\<bar> * r" using r by (simp add: abs_mult)
  also have "\<dots> \<le> a * eps * r" using da r by (intro mult_right_mono) simp_all
  also have "\<dots> = real len * eps" using ar by (simp add: mult.commute mult.left_commute)
  also have "\<dots> \<le> E" unfolding E_def using lenN eps(1) by (rule mult_right_mono)
  finally have "\<bar>(d - a) * r\<bar> \<le> E" .
  moreover have "(d - a) * r = X - N"
    using ar by (simp add: X_def b_def N_def algebra_simps)
  ultimately have XN: "\<bar>X - N\<bar> \<le> E" by simp
  have X0: "0 \<le> X" using b0 r by (simp add: X_def)
  from XN EN have "X \<le> 2 * N" by linarith
  then have "X * eps \<le> 2 * N * eps" using eps(1) by (rule mult_right_mono)
  then have XE: "X * eps \<le> 2 * E" by (simp add: E_def)
  have "\<bar>(s - b) * r\<bar> = \<bar>s - b\<bar> * r" using r by (simp add: abs_mult)
  also have "\<dots> \<le> b * eps * r" using sb r by (intro mult_right_mono) simp_all
  also have "\<dots> = X * eps" by (simp add: X_def mult.commute mult.left_commute)
  finally have "\<bar>(s - b) * r\<bar> \<le> 2 * E" using XE by linarith
  moreover have "(s - b) * r = c - X" by (simp add: c_def X_def algebra_simps)
  ultimately have cX: "\<bar>c - X\<bar> \<le> 2 * E" by simp
  from cX XN EN have "c \<le> 4 * N" by linarith
  then have "c * eps \<le> 4 * N * eps" using eps(1) by (rule mult_right_mono)
  then have "c * eps \<le> 4 * E" by (simp add: E_def)
  with pc have "\<bar>p - c\<bar> \<le> 4 * E" by linarith
  with cX XN E8 have "\<bar>p - N\<bar> \<le> 7 / 8" by linarith
  then show ?thesis
    by (simp add: p_def c_def s_def b_def d_def a_def N_def r_def)
qed

lemma floor_close:
  fixes p :: real and n :: nat
  assumes "\<bar>p - real n\<bar> \<le> 7 / 8"
  shows "nat \<lfloor>p\<rfloor> = n \<or> nat \<lfloor>p\<rfloor> + 1 = n"
proof -
  from assms have "real n - 1 \<le> p" "p < real n + 1" by linarith+
  then have "real_of_int (int n - 1) \<le> p" "p < real_of_int (int n + 1)" by simp_all
  then have "int n - 1 \<le> \<lfloor>p\<rfloor>" "\<lfloor>p\<rfloor> < int n + 1"
    by (simp_all only: le_floor_iff floor_less_iff)
  then show ?thesis by linarith
qed

text \<open>For a source of a whole number of seconds no operation rounds.\<close>

lemma whole_seconds_frames:
  fixes k j rate :: nat
  assumes rate: "0 < rate" and lt: "(k + j) * rate < 2 ^ 53"
  shows "fl (fl (real (k * rate) / real rate) + real j) = real (k + j)"
    and "fl (fl (fl (real (k * rate) / real rate) + real j) * real rate) = real ((k + j) * rate)"
proof -
  from rate have "k + j \<le> (k + j) * rate" by simp
  then have kj: "k + j < 2 ^ 53" using lt by (rule le_less_trans)
  then have k: "k < 2 ^ 53" by simp
  have "real (k * rate) / real rate = real k" using rate by simp
  then have "fl (real (k * rate) / real rate) = real k" using fl_of_nat [OF k] by simp
  then have "fl (fl (real (k * rate) / real rate) + real j) = fl (real (k + j))" by simp
  then show 1: "fl (fl (real (k * rate) / real rate) + real j) = real (k + j)"
    using fl_of_nat [OF kj] by simp
  have "fl (real (k + j) * real rate) = fl (real ((k + j) * rate))" by simp
  also have "\<dots> = real ((k + j) * rate)" using lt by (rule fl_of_nat)
  finally show "fl (fl (fl (real (k * rate) / real rate) + real j) * real rate) =
      real ((k + j) * rate)"
    unfolding 1 .
qed

section \<open>Properties of the encoder\<close>

subsection \<open>Little-endian fields\<close>

lemma length_le32: "length (le32 n) = 4"
  by (simp add: le32_def)

lemma length_le16: "length (le16 n) = 2"
  by (simp add: le16_def)

lemma length_header: "length (header nc rate len) = 44"
  by (simp add: header_def length_le32 length_le16)

lemma le32_inverse:
  "n mod 256 + 256 * (n div 256 mod 256) + 65536 * (n div 65536 mod 256) +
     16777216 * (n div 16777216 mod 256) = n mod 4294967296" for n :: nat
proof -
  have lo: "n mod 65536 = n mod 256 + 256 * (n div 256 mod 256)"
    using mod_mult2_eq [of n 256 256] by simp
  have hi: "n div 65536 mod 65536 = n div 65536 mod 256 + 256 * (n div 65536 div 256 mod 256)"
    using mod_mult2_eq [of "n div 65536" 256 256] by simp
  have both: "n mod 4294967296 = n mod 65536 + 65536 * (n div 65536 mod 65536)"
    using mod_mult2_eq [of n 65536 65536] by simp
  have shift: "n div 65536 div 256 = n div 16777216"
    by (simp add: div_mult2_eq [symmetric])
  show ?thesis
    unfolding both lo hi shift by simp
qed

lemma getUint32_le32: "getUint32 (length pre) (pre @ le32 n @ post) = n mod 4294967296"
  by (simp add: getUint32_def le32_def nth_append le32_inverse)

subsection \<open>The header is written without a \<open>RangeError\<close>\<close>

lemma write_header_Some:
  assumes v: "44 \<le> length v"
  shows "write_header nc rate len \<lparr>view = v, pos = 0, offset = k\<rparr> =
     Some \<lparr>view = header nc rate len @ drop 44 v, pos = 44, offset = k\<rparr>"
proof -
  define st where "st pre = \<lparr>view = pre @ drop (length pre) v, pos = length pre, offset = k\<rparr>"
    for pre
  have step32: "setUint32 d (st pre) = Some (st (pre @ le32 d))"
    if "length pre + 4 \<le> length v" for pre d
    using that by (simp add: st_def setUint32_def dv_set_def length_le32 add.commute)
  have step16: "setUint16 d (st pre) = Some (st (pre @ le16 d))"
    if "length pre + 2 \<le> length v" for pre d
    using that by (simp add: st_def setUint16_def dv_set_def length_le16 add.commute)
  have pos_st: "pos (st pre) = length pre" for pre
    by (simp add: st_def)
  have start: "\<lparr>view = v, pos = 0, offset = k\<rparr> = st []"
    by (simp add: st_def)
  have "write_header nc rate len (st []) = Some (st (header nc rate len))"
    unfolding write_header_def header_def using v
    by (simp add: step32 step16 pos_st length_le32 length_le16)
  then show ?thesis
    unfolding start by (simp add: st_def length_header)
qed

subsection \<open>The data loop stays inside the buffer and leaves the header alone\<close>

lemma write_sample_Some:
  assumes "44 + offset w + 2 \<le> length (view w)"
  shows "\<exists>w'. write_sample channels i w = Some w' \<and> length (view w') = length (view w) \<and>
     take 44 (view w') = take 44 (view w) \<and> offset w' = offset w + 2 \<and> pos w' = pos w"
  using assms by (simp add: write_sample_def dv_set_def int16_bytes_def length_le16)

lemma write_frame_Some:
  assumes "44 + offset w + 2 * length is \<le> length (view w)"
  shows "\<exists>w'. write_frame channels is w = Some w' \<and> length (view w') = length (view w) \<and>
     take 44 (view w') = take 44 (view w) \<and> offset w' = offset w + 2 * length is \<and>
     pos w' = pos w"
  using assms
proof (induction "is" arbitrary: w)
  case Nil
  then show ?case by simp
next
  case (Cons i "is")
  from Cons.prems have "44 + offset w + 2 \<le> length (view w)" by simp
  from write_sample_Some [OF this, of channels i] obtain w1 where
    w1: "write_sample channels i w = Some w1" "length (view w1) = length (view w)"
      "take 44 (view w1) = take 44 (view w)" "offset w1 = offset w + 2" "pos w1 = pos w"
    by blast
  from Cons.prems w1 have "44 + offset w1 + 2 * length is \<le> length (view w1)" by simp
  from Cons.IH [OF this] w1 show ?case by auto
qed

lemma write_data_Some:
  assumes "44 + offset w + 2 * numOfChan * (len - pos w) \<le> length (view w)"
  shows "\<exists>w'. write_data channels numOfChan len w = Some w' \<and>
     length (view w') = length (view w) \<and> take 44 (view w') = take 44 (view w)"
  using assms
proof (induction channels numOfChan len w rule: write_data.induct)
  case (1 channels numOfChan len w)
  show ?case
  proof (cases "pos w < len")
    case False
    then show ?thesis by (subst write_data.simps) simp
  next
    case True
    then have split: "len - pos w = Suc (len - (pos w + 1))" by simp
    have "44 + offset w + 2 * length [0..<numOfChan] \<le> length (view w)"
      using "1.prems" unfolding split by simp
    from write_frame_Some [OF this, of channels] obtain w1 where
      w1: "write_frame channels [0..<numOfChan] w = Some w1" "length (view w1) = length (view w)"
        "take 44 (view w1) = take 44 (view w)" "offset w1 = offset w + 2 * numOfChan"
        "pos w1 = pos w"
      by auto
    let ?w2 = "w1\<lparr>pos := pos w1 + 1\<rparr>"
    have "44 + offset ?w2 + 2 * numOfChan * (len - pos ?w2) \<le> length (view ?w2)"
      using "1.prems" w1 unfolding split by simp
    from "1.IH" [OF True w1(1) this] w1 True show ?thesis
      by (subst write_data.simps) auto
  qed
qed

subsection \<open>\<open>bufferToWave\<close> returns, with the header in front\<close>

lemma bufferToWave_Some:
  "\<exists>bytes. bufferToWave h abuffer len = Some bytes \<and>
     length bytes = 44 + len * numberOfChannels abuffer * 2 \<and>
     take 44 bytes =
       header (numberOfChannels abuffer) (sampleRate abuffer)
         (len * numberOfChannels abuffer * 2 + 44)"
proof -
  let ?nc = "numberOfChannels abuffer"
  let ?L = "len * ?nc * 2 + 44"
  let ?w1 = "\<lparr>view = header ?nc (sampleRate abuffer) ?L @ drop 44 (replicate ?L 0), pos = 44,
     offset = 0\<rparr>"
  have hdr: "write_header ?nc (sampleRate abuffer) ?L
      \<lparr>view = replicate ?L 0, pos = 0, offset = 0\<rparr> = Some ?w1"
    by (rule write_header_Some) simp
  have "44 + offset ?w1 + 2 * ?nc * (len - pos ?w1) \<le> length (view ?w1)"
    by (simp add: length_header diff_mult_distrib2 mult.commute)
  from write_data_Some [OF this] obtain w' where
    w': "write_data (map (getChannelData h abuffer) [0..<?nc]) ?nc len ?w1 = Some w'"
      "length (view w') = length (view ?w1)" "take 44 (view w') = take 44 (view ?w1)"
    by blast
  show ?thesis
    using w' by (simp add: bufferToWave_def hdr Let_def length_header)
qed

text \<open>
  The loop \<open>while (pos < len)\<close> starts with the \<open>pos\<close> that the header writes
  have advanced to 44. A buffer of at most 44 frames is encoded as a header
  and an untouched, zero-filled payload.
\<close>

lemma bufferToWave_short:
  assumes "len \<le> 44"
  shows "bufferToWave h abuffer len =
     Some (header (numberOfChannels abuffer) (sampleRate abuffer)
             (len * numberOfChannels abuffer * 2 + 44) @
           replicate (len * numberOfChannels abuffer * 2) 0)"
proof -
  let ?nc = "numberOfChannels abuffer"
  let ?L = "len * ?nc * 2 + 44"
  have hdr: "write_header ?nc (sampleRate abuffer) ?L
      \<lparr>view = replicate ?L 0, pos = 0, offset = 0\<rparr> =
    Some \<lparr>view = header ?nc (sampleRate abuffer) ?L @ drop 44 (replicate ?L 0), pos = 44,
      offset = 0\<rparr>"
    by (rule write_header_Some) simp
  have "write_data channels ?nc len \<lparr>view = v, pos = 44, offset = 0\<rparr> =
      Some \<lparr>view = v, pos = 44, offset = 0\<rparr>" for channels v
    using assms by (subst write_data.simps) simp
  then show ?thesis
    by (simp add: bufferToWave_def hdr Let_def)
qed

text \<open>The encoding of the four-frame scenario buffer, byte by byte.\<close>

lemma scenario_bytes:
  "bufferToWave scenario_heap scenario_buffer 4 =
     Some [0x52, 0x49, 0x46, 0x46, 44, 0, 0, 0, 0x57, 0x41, 0x56, 0x45,
           0x66, 0x6d, 0x74, 0x20, 16, 0, 0, 0, 1, 0, 1, 0,
           0x40, 0x1F, 0, 0, 0x80, 0x3E, 0, 0, 2, 0, 16, 0,
           0x64, 0x61, 0x74, 0x61, 8, 0, 0, 0,
           0, 0, 0, 0, 0, 0, 0, 0]"
proof -
  have r: "replicate 8 (0::nat) = [0, 0, 0, 0, 0, 0, 0, 0]"
    by (simp add: numeral_eq_Suc)
  show ?thesis
    by (simp add: bufferToWave_short scenario_buffer_def numberOfChannels_def header_def
      le32_def le16_def r)
qed

text \<open>
  With 45 frames the loop runs once, for frame 44, and writes its sample at the
  start of the payload; the 44 frames before it are never read.
\<close>

lemma late_bytes:
  "bufferToWave late_heap late_buffer 45 =
     Some (header 1 8000 134 @ int16_bytes (- 8191) @ replicate 88 0)"
proof -
  let ?w1 = "\<lparr>view = header 1 8000 134 @ drop 44 (replicate 134 0), pos = 44, offset = 0\<rparr>"
  let ?w2 = "\<lparr>view = header 1 8000 134 @ int16_bytes (- 8191) @ replicate 88 0, pos = 44,
    offset = 2\<rparr>"
  have hdr: "write_header 1 8000 134 \<lparr>view = replicate 134 0, pos = 0, offset = 0\<rparr> = Some ?w1"
    by (rule write_header_Some) simp
  have smp: "scale (clamp (read_sample late_channel 44)) = - 8191"
    by (simp add: late_channel_def read_sample_def nth_append scale_def clamp_def toInt32_def
        js_trunc_def)
  have "write_sample [late_channel] 0 ?w1 = Some ?w2"
    unfolding write_sample_def
    by (simp add: smp dv_set_def length_header int16_bytes_def length_le16)
  then have frame: "write_frame [late_channel] [0..<1] ?w1 = Some ?w2"
    by simp
  have data: "write_data [late_channel] 1 45 ?w1 = Some (?w2\<lparr>pos := 45\<rparr>)"
    by (subst write_data.simps, simp only: frame, simp, subst write_data.simps, simp)
  have nc: "numberOfChannels late_buffer = 1" and rate: "sampleRate late_buffer = 8000"
    by (simp_all add: late_buffer_def numberOfChannels_def)
  have channels: "map (getChannelData late_heap late_buffer) [0..<1] = [late_channel]"
    by (simp add: late_buffer_def late_heap_def getChannelData_def)
  have len: "45 * 1 * 2 + 44 = (134::nat)"
    by simp
  show ?thesis
    unfolding bufferToWave_def Let_def nc rate channels len hdr option.case data
    by simp
qed

text \<open>The two length fields, read back: each holds its value modulo \<open>2^32\<close>.\<close>

lemma header_fields:
  "getUint32 4 (header nc rate len @ payload) = (len - 8) mod 4294967296"
  "getUint32 40 (header nc rate len @ payload) = (len - 44) mod 4294967296"
proof -
  show "getUint32 4 (header nc rate len @ payload) = (len - 8) mod 4294967296"
    using getUint32_le32 [of "le32 0x46464952" "len - 8"]
    by (simp add: header_def length_le32)
  show "getUint32 40 (header nc rate len @ payload) = (len - 44) mod 4294967296"
    using getUint32_le32 [of "le32 0x46464952 @ le32 (len - 8) @ le32 0x45564157 @
      le32 0x20746d66 @ le32 16 @ le16 1 @ le16 nc @ le32 rate @ le32 (rate * 2 * nc) @
      le16 (nc * 2) @ le16 16 @ le32 0x61746164" "len - 44" payload]
    by (simp add: header_def length_le32 length_le16)
qed

lemma bufferToWave_fields:
  "\<exists>bytes. bufferToWave h abuffer len = Some bytes \<and>
     length bytes = 44 + len * numberOfChannels abuffer * 2 \<and>
     getUint32 4 bytes = (length bytes - 8) mod 4294967296 \<and>
     getUint32 40 bytes = (len * numberOfChannels abuffer * 2) mod 4294967296"
proof -
  let ?nc = "numberOfChannels abuffer"
  from bufferToWave_Some [of h abuffer len] obtain bytes where
    b: "bufferToWave h abuffer len = Some bytes" "length bytes = 44 + len * ?nc * 2"
      "take 44 bytes = header ?nc (sampleRate abuffer) (len * ?nc * 2 + 44)"
    by blast
  have "bytes = take 44 bytes @ drop 44 bytes" by simp
  with b(3) have split: "bytes = header ?nc (sampleRate abuffer) (len * ?nc * 2 + 44) @ drop 44 bytes"
    by simp
  have "getUint32 4 bytes = (len * ?nc * 2 + 44 - 8) mod 4294967296"
    by (subst split) (rule header_fields)
  moreover have "getUint32 40 bytes = (len * ?nc * 2 + 44 - 44) mod 4294967296"
    by (subst split) (rule header_fields)
  ultimately show ?thesis
    using b by (simp add: add.commute)
qed

lemma bufferToWave_fields_small:
  assumes "len * numberOfChannels abuffer * 2 + 36 < 4294967296"
  shows "\<exists>bytes. bufferToWave h abuffer len = Some bytes \<and>
     length bytes = 44 + len * numberOfChannels abuffer * 2 \<and>
     getUint32 4 bytes = length bytes - 8 \<and>
     getUint32 40 bytes = len * numberOfChannels abuffer * 2"
proof -
  from bufferToWave_fields [of h abuffer len] obtain bytes where
    b: "bufferToWave h abuffer len = Some bytes"
      "length bytes = 44 + len * numberOfChannels abuffer * 2"
      "getUint32 4 bytes = (length bytes - 8) mod 4294967296"
      "getUint32 40 bytes = (len * numberOfChannels abuffer * 2) mod 4294967296"
    by blast
  with assms show ?thesis by simp
qed

subsection \<open>The sample conversion\<close>

lemma toInt32_small:
  assumes "- 2147483648 \<le> js_trunc r" "js_trunc r < 2147483648"
  shows "toInt32 r = js_trunc r"
proof (cases "0 \<le> js_trunc r")
  case True
  with assms show ?thesis by (simp add: toInt32_def Let_def)
next
  case False
  with assms have "(js_trunc r + 4294967296) mod 4294967296 = js_trunc r + 4294967296"
    by (intro mod_pos_pos_trivial) simp_all
  then have "js_trunc r mod 4294967296 = js_trunc r + 4294967296"
    by simp
  with False assms show ?thesis by (simp add: toInt32_def Let_def)
qed

text \<open>
  What the conversion computes: the clamped sample is scaled by 32768 when it
  is below \<open>-0.5\<close> and by 32767 otherwise, and the fraction is dropped.
\<close>

lemma scale_in_range:
  assumes c: "- 1 \<le> c" "c \<le> 1"
  shows "scale (Fin c) = js_trunc (if c < - (1 / 2) then c * 32768 else c * 32767)"
proof -
  define x where "x = (if c < - (1 / 2) then c * 32768 else c * 32767)"
  from c have x: "- 32768 \<le> x" "x \<le> 32768" by (auto simp: x_def)
  have "- 32768 \<le> js_trunc x" "js_trunc x \<le> 32768"
    using x by (auto simp: js_trunc_def le_floor_iff floor_le_iff le_ceiling_iff ceiling_le_iff)
  then have "toInt32 x = js_trunc x"
    by (intro toInt32_small) simp_all
  moreover have "1 / 2 + c < 0 \<longleftrightarrow> c < - (1 / 2)" by auto
  ultimately show ?thesis
    unfolding scale_def x_def by simp
qed

lemma scale_clamp_eq:
  "scale (clamp (Fin r)) =
     (let c = max (- 1) (min 1 r) in js_trunc (if c < - (1 / 2) then c * 32768 else c * 32767))"
proof -
  have "clamp (Fin r) = Fin (max (- 1) (min 1 r))"
    by (simp add: clamp_def)
  then show ?thesis
    unfolding Let_def using scale_in_range [of "max (- 1) (min 1 r)"] by simp
qed

section \<open>Properties of the reversal\<close>

text \<open>The reversal loop reverses the array of each channel in turn.\<close>

lemma reverseChannels_fold: "reverseChannels b h = fold rev_at (chanData b) h"
proof -
  have "fold rev_at (map (nth (chanData b)) [0..<length (chanData b)]) h =
      fold (rev_at \<circ> nth (chanData b)) [0..<length (chanData b)] h"
    by (simp only: fold_map)
  moreover have "rev_at \<circ> nth (chanData b) = (\<lambda>i h'. h'[chanData b ! i := rev (getChannelData h' b i)])"
    by (auto simp: rev_at_def getChannelData_def fun_eq_iff)
  ultimately show ?thesis
    by (simp add: reverseChannels_def numberOfChannels_def map_nth)
qed

text \<open>Reversals at any addresses commute, and each is its own inverse.\<close>

lemma rev_at_twice: "rev_at a (rev_at a h) = h"
  by (cases "a < length h") (simp_all add: rev_at_def list_update_beyond)

lemma rev_at_commute: "rev_at a (rev_at b h) = rev_at b (rev_at a h)"
  by (cases "a = b") (simp_all add: rev_at_def list_update_swap)

lemma rev_at_fold: "rev_at a (fold rev_at as h) = fold rev_at as (rev_at a h)"
  by (induction as arbitrary: h) (simp_all add: rev_at_commute)

lemma fold_rev_at_twice: "fold rev_at as (fold rev_at as h) = h"
proof (induction as arbitrary: h)
  case Nil
  show ?case by simp
next
  case (Cons a as)
  have "fold rev_at (a # as) (fold rev_at (a # as) h) =
      fold rev_at as (rev_at a (fold rev_at as (rev_at a h)))"
    by simp
  also have "\<dots> = fold rev_at as (fold rev_at as (rev_at a (rev_at a h)))"
    by (simp only: rev_at_fold)
  also have "\<dots> = h"
    by (simp add: rev_at_twice Cons.IH)
  finally show ?case .
qed

lemma reverseChannels_twice: "reverseChannels b (reverseChannels b h) = h"
  by (simp add: reverseChannels_fold fold_rev_at_twice)

section \<open>Allocation and the writes of \<open>cloneBuffer\<close> leave the old arrays alone\<close>

lemma take_fold:
  assumes "\<And>i h'. i \<in> set is \<Longrightarrow> take n (f i h') = take n h'"
  shows "take n (fold f is h) = take n h"
  using assms by (induction "is" arbitrary: h) simp_all

lemma length_fold:
  assumes "\<And>i h'. i \<in> set is \<Longrightarrow> length (f i h') = length h'"
  shows "length (fold f is h) = length h"
  using assms by (induction "is" arbitrary: h) simp_all

lemma alloc_buffer_store:
  "snd (alloc_buffer nc len rate f h) = h @ map (\<lambda>c. map (f c) [0..<len]) [0..<nc]"
  by (simp add: alloc_buffer_def)

lemma alloc_buffer_buffer:
  "fst (alloc_buffer nc len rate f h) =
     \<lparr>sampleRate = rate, length_buf = len, chanData = [length h..<length h + nc]\<rparr>"
  by (simp add: alloc_buffer_def)

lemma cloneBuffer_chanData:
  "chanData (fst (cloneBuffer b h)) = [length h..<length h + numberOfChannels b]"
  by (simp add: cloneBuffer_def createBuffer_def alloc_buffer_def)

lemma cloneBuffer_length:
  "length (snd (cloneBuffer b h)) = length h + numberOfChannels b"
  by (simp add: cloneBuffer_def createBuffer_def alloc_buffer_def copyToChannel_def length_fold)

lemma cloneBuffer_take: "take (length h) (snd (cloneBuffer b h)) = h"
proof -
  let ?nb = "fst (createBuffer (numberOfChannels b) (length_buf b) (sampleRate b) h)"
  let ?h1 = "snd (createBuffer (numberOfChannels b) (length_buf b) (sampleRate b) h)"
  have "take (length h)
      (fold (\<lambda>i h'. copyToChannel (getChannelData h' b i) ?nb i h')
         [0..<numberOfChannels b] ?h1) = take (length h) ?h1"
    by (rule take_fold) (simp add: copyToChannel_def createBuffer_def alloc_buffer_def)
  then show ?thesis
    by (simp add: cloneBuffer_def createBuffer_def alloc_buffer_def)
qed

lemma reverseChannels_length: "length (reverseChannels b h) = length h"
  by (simp add: reverseChannels_def length_fold)

lemma reverseChannels_take:
  assumes "\<And>i. i < numberOfChannels b \<Longrightarrow> n \<le> chanData b ! i"
  shows "take n (reverseChannels b h) = take n h"
  unfolding reverseChannels_def
  by (rule take_fold) (simp add: assms)

lemma reversedBuffer_eq:
  "reversedBuffer cur h =
     (fst (cloneBuffer cur h), reverseChannels (fst (cloneBuffer cur h)) (snd (cloneBuffer cur h)))"
  by (simp add: reversedBuffer_def split_def Let_def)

lemma reversedBuffer_chanData:
  "chanData (fst (reversedBuffer cur h)) = [length h..<length h + numberOfChannels cur]"
  by (simp add: reversedBuffer_eq cloneBuffer_chanData)

lemma reversedBuffer_length:
  "length (snd (reversedBuffer cur h)) = length h + numberOfChannels cur"
  by (simp add: reversedBuffer_eq reverseChannels_length cloneBuffer_length)

lemma reversedBuffer_take: "take (length h) (snd (reversedBuffer cur h)) = h"
proof -
  let ?rb = "fst (cloneBuffer cur h)"
  have "take (length h) (reverseChannels ?rb (snd (cloneBuffer cur h))) =
      take (length h) (snd (cloneBuffer cur h))"
    by (rule reverseChannels_take) (simp add: cloneBuffer_chanData numberOfChannels_def)
  then show ?thesis
    by (simp add: reversedBuffer_eq cloneBuffer_take)
qed

lemma valid_bufferD:
  assumes "valid_buffer h b" "i < numberOfChannels b"
  shows "chanData b ! i < length h" "length (h ! (chanData b ! i)) = length_buf b"
  using assms by (simp_all add: valid_buffer_def numberOfChannels_def list_all_length)

lemma copy_samples_same_length: "length source = length dest \<Longrightarrow> copy_samples source dest = source"
  by (simp add: copy_samples_def)

text \<open>
  The clone of a valid buffer holds, channel by channel, the samples of the
  original; its reversal holds them reversed.
\<close>

lemma cloneBuffer_nth:
  assumes valid: "valid_buffer h b" and j: "j < numberOfChannels b"
  shows "snd (cloneBuffer b h) ! (length h + j) = h ! (chanData b ! j)"
proof -
  let ?nc = "numberOfChannels b"
  let ?n = "length h"
  let ?zeros = "replicate (length_buf b) (Fin 0)"
  define nb where "nb = fst (createBuffer ?nc (length_buf b) (sampleRate b) h)"
  define h1 where "h1 = snd (createBuffer ?nc (length_buf b) (sampleRate b) h)"
  define F where "F k = fold (\<lambda>i h'. copyToChannel (getChannelData h' b i) nb i h') [0..<k] h1"
    for k
  have nb: "chanData nb = [?n..<?n + ?nc]"
    by (simp add: nb_def createBuffer_def alloc_buffer_def)
  have h1: "h1 = h @ replicate ?nc ?zeros"
    by (simp add: h1_def createBuffer_def alloc_buffer_def map_replicate_const)
  have F_Suc: "F (Suc k) = copyToChannel (getChannelData (F k) b k) nb k (F k)" for k
    by (simp add: F_def)
  have inv: "length (F k) = ?n + ?nc \<and> take ?n (F k) = h \<and>
      (\<forall>i<?nc. F k ! (?n + i) = (if i < k then h ! (chanData b ! i) else ?zeros))"
    if "k \<le> ?nc" for k
    using that
  proof (induction k)
    case 0
    show ?case by (simp add: F_def h1 nth_append)
  next
    case (Suc k)
    then have k: "k < ?nc" and IH: "length (F k) = ?n + ?nc" "take ?n (F k) = h"
      "\<forall>i<?nc. F k ! (?n + i) = (if i < k then h ! (chanData b ! i) else ?zeros)"
      by simp_all
    from valid k have ref: "chanData b ! k < ?n" "length (h ! (chanData b ! k)) = length_buf b"
      by (rule valid_bufferD)+
    have "F k ! (chanData b ! k) = take ?n (F k) ! (chanData b ! k)"
      using ref by simp
    then have src: "getChannelData (F k) b k = h ! (chanData b ! k)"
      by (simp add: getChannelData_def IH)
    have dst: "F k ! (?n + k) = ?zeros"
      using IH(3) k by simp
    have step: "F (Suc k) = (F k)[?n + k := h ! (chanData b ! k)]"
      using k ref by (simp add: F_Suc copyToChannel_def nb src dst copy_samples_same_length)
    show ?case
      unfolding step using IH k by (auto simp: nth_list_update less_Suc_eq)
  qed
  have "snd (cloneBuffer b h) = F ?nc"
    by (simp add: cloneBuffer_def split_def Let_def F_def nb_def h1_def)
  with inv [of ?nc] j show ?thesis
    by simp
qed

lemma fold_rev_at_nth:
  assumes "distinct as" "a < length h"
  shows "fold rev_at as h ! a = (if a \<in> set as then rev (h ! a) else h ! a)"
  using assms
proof (induction as arbitrary: h)
  case Nil
  show ?case by simp
next
  case (Cons x as)
  from Cons.prems have len: "a < length (rev_at x h)" and d: "distinct as" and x: "x \<notin> set as"
    by (simp_all add: rev_at_def)
  have "fold rev_at (x # as) h ! a =
      (if a \<in> set as then rev (rev_at x h ! a) else rev_at x h ! a)"
    using Cons.IH [OF d len] by simp
  also have "\<dots> = (if a \<in> set (x # as) then rev (h ! a) else h ! a)"
  proof (cases "a = x")
    case True
    with x Cons.prems show ?thesis by (simp add: rev_at_def)
  next
    case False
    then show ?thesis by (simp add: rev_at_def)
  qed
  finally show ?case .
qed

lemma reverseChannels_nth:
  assumes "distinct (chanData b)" "i < numberOfChannels b" "chanData b ! i < length h"
  shows "getChannelData (reverseChannels b h) b i = rev (getChannelData h b i)"
  using fold_rev_at_nth [OF assms(1,3)] assms(2)
  by (simp add: reverseChannels_fold getChannelData_def numberOfChannels_def)

lemma reversedBuffer_nth:
  assumes valid: "valid_buffer h cur" and i: "i < numberOfChannels cur"
  shows "getChannelData (snd (reversedBuffer cur h)) (fst (reversedBuffer cur h)) i =
     rev (getChannelData h cur i)"
proof -
  let ?rb = "fst (cloneBuffer cur h)"
  let ?h1 = "snd (cloneBuffer cur h)"
  have cd: "chanData ?rb = [length h..<length h + numberOfChannels cur]"
    by (rule cloneBuffer_chanData)
  have "fold rev_at (chanData ?rb) ?h1 ! (length h + i) =
      (if length h + i \<in> set (chanData ?rb) then rev (?h1 ! (length h + i))
       else ?h1 ! (length h + i))"
    by (rule fold_rev_at_nth) (simp_all add: cd cloneBuffer_length i)
  then have "reverseChannels ?rb ?h1 ! (length h + i) = rev (?h1 ! (length h + i))"
    using i by (simp add: reverseChannels_fold cd)
  then show ?thesis
    using i by (simp add: reversedBuffer_eq getChannelData_def cd cloneBuffer_nth [OF valid i])
qed

section \<open>Properties of the engine\<close>

subsection \<open>The invariant\<close>

lemma valid_buffer_grow:
  assumes "valid_buffer h b" "take (length h) h' = h"
  shows "valid_buffer h' b"
proof -
  have "length (take (length h) h') = length h"
    using assms(2) by simp
  then have len: "length h \<le> length h'"
    by simp
  have "h' ! a = h ! a" if "a < length h" for a
  proof -
    from that have "take (length h) h' ! a = h' ! a" by simp
    with assms(2) show ?thesis by simp
  qed
  with assms(1) len show ?thesis
    by (auto simp: valid_buffer_def list_all_iff)
qed

lemma inv_new: "inv (new_engine susp)"
  by (simp add: inv_def new_engine_def)

lemma inv_stop: "inv s \<Longrightarrow> inv (snd (stop s))"
  by (auto simp: inv_def stop_def node_stop_def Let_def nth_list_update
      split: option.splits)

lemma inv_pause: "inv s \<Longrightarrow> inv (snd (pause s))"
  by (auto simp: inv_def pause_def and_then_def node_stop_def Let_def nth_list_update
      playing_node_def split: option.splits)

lemma inv_advance: "inv s \<Longrightarrow> 0 \<le> d \<Longrightarrow> inv (advance d s)"
  by (auto simp: inv_def advance_def playing_node_def split: option.splits)

lemma inv_updateEffects: "inv s \<Longrightarrow> inv (updateEffects e s)"
  by (auto simp: inv_def updateEffects_def playing_node_def Let_def nth_list_update
      split: option.splits)

lemma inv_ended: "inv s \<Longrightarrow> inv (dispatch_ended n s)"
  by (auto simp: inv_def dispatch_ended_def ended_handler_def playing_node_def Let_def
      nth_list_update split: option.splits)

subsection \<open>\<open>stop\<close>\<close>

lemma stop_returns: "fst (stop s) = Inr ()"
  by (simp add: stop_def Let_def)

lemma stop_fields:
  "pauseTime (snd (stop s)) = 0" "isPlaying (snd (stop s)) = False"
  "store (snd (stop s)) = store s" "currentBuffer (snd (stop s)) = currentBuffer s"
  "currentTime (snd (stop s)) = currentTime s" "fired (snd (stop s)) = fired s"
  "sourceNode (snd (stop s)) = sourceNode s" "length (nodes (snd (stop s))) = length (nodes s)"
  by (simp_all add: stop_def node_stop_def Let_def split: option.splits)

text \<open>After \<open>stop\<close>, the source raises when halted again.\<close>

lemma second_halt_raises:
  assumes "sourceNode s = Some n"
  shows "fst (node_stop n (snd (stop s))) = Inl InvalidStateError"
  using assms by (simp add: stop_def node_stop_def Let_def)
text \<open>\<open>stop\<close> fires no callback and detaches no handler.\<close>

lemma stop_keeps_handlers:
  "fired (snd (stop s)) = fired s \<and> map onended (nodes (snd (stop s))) = map onended (nodes s)"
  by (auto simp: stop_def node_stop_def Let_def nth_list_update split: option.splits
      intro!: nth_equalityI)

subsection \<open>\<open>play\<close>\<close>

lemma derived_take: "take (length h) (snd (derived e cur h)) = h"
  by (simp add: derived_def reversedBuffer_take)

lemma createSource_loaded:
  assumes "currentBuffer s = Some cur"
  shows "createSource e s =
     (Inr (length (nodes s)),
      s\<lparr>store := snd (derived e cur (store s)),
        nodes := nodes s @
          [\<lparr>buffer = fst (derived e cur (store s)), detune = pitch e, detuneTarget = None,
            started = False, stopped = False, ended = False, onended = None\<rparr>]\<rparr>)"
  using assms by (simp add: createSource_def derived_def split_def Let_def)

text \<open>
  With a buffer loaded and a non-negative offset, \<open>play\<close> returns normally;
  its final state, field by field.
\<close>

lemma play_loaded:
  assumes cur: "currentBuffer s = Some cur"
    and off: "0 \<le> pauseTime (before_play s)"
  shows "play e onEnded s =
     (Inr (),
      (before_play s)
        \<lparr>store := snd (derived e cur (store s)),
         nodes := nodes (before_play s) @
           [\<lparr>buffer = fst (derived e cur (store s)), detune = pitch e, detuneTarget = None,
             started = True, stopped = False, ended = False, onended = Some onEnded\<rparr>],
         sourceNode := Some (length (nodes s)),
         delayTime := echoDelay e,
         feedbackGain := echoFeedback e,
         startTime := currentTime s - pauseTime (before_play s),
         isPlaying := True\<rparr>)"
proof -
  let ?s1 = "if isPlaying s then snd (stop s) else s"
  let ?s2 = "before_play s"
  have first: "(if isPlaying s then stop s else (Inr (), s)) = (Inr (), ?s1)"
    using stop_returns [of s] by (cases "stop s") auto
  have cur2: "currentBuffer ?s1 = Some cur" "currentBuffer ?s2 = Some cur"
    using cur by (simp_all add: before_play_def stop_fields Let_def)
  have same: "store ?s2 = store s" "length (nodes ?s2) = length (nodes s)"
    "currentTime ?s2 = currentTime s"
    by (simp_all add: before_play_def stop_fields Let_def)
  have s2: "(if suspended ?s1 then ?s1\<lparr>suspended := False\<rparr> else ?s1) = ?s2"
    by (simp add: before_play_def Let_def)
  have upd: "(nodes ?s2 @ [a])[length (nodes s) := b] = nodes ?s2 @ [b]" for a b
    by (simp add: same(2) [symmetric])
  show ?thesis
    unfolding play_def first and_then_def
    apply (simp only: prod.case sum.case cur2 option.case s2 createSource_loaded [OF cur2(2)])
    using off
    apply (simp add: node_start_def Let_def same nth_append upd)
    done
qed

lemma inv_suspended: "inv (s\<lparr>suspended := b\<rparr>) = inv s"
  by (simp add: inv_def playing_node_def cong: option.case_cong)

lemma inv_before_play: "inv s \<Longrightarrow> inv (before_play s)"
  by (simp add: before_play_def Let_def inv_suspended inv_stop)

lemma before_play_fields:
  "store (before_play s) = store s" "currentBuffer (before_play s) = currentBuffer s"
  "currentTime (before_play s) = currentTime s" "fired (before_play s) = fired s"
  "length (nodes (before_play s)) = length (nodes s)"
  "pauseTime (before_play s) = (if isPlaying s then 0 else pauseTime s)"
  by (simp_all add: before_play_def Let_def stop_fields)

lemma play_unloaded:
  assumes "currentBuffer s = None" "\<not> isPlaying s"
  shows "play e onEnded s = (Inr (), s)"
  using assms by (simp add: play_def and_then_def)

lemma inv_play:
  assumes "inv s"
  shows "inv (snd (play e onEnded s))"
proof (cases "currentBuffer s")
  case None
  with assms have "\<not> isPlaying s" by (simp add: inv_def)
  with None assms show ?thesis by (simp add: play_unloaded)
next
  case (Some cur)
  let ?b = "before_play s"
  from assms have b: "inv ?b" by (rule inv_before_play)
  then have off: "0 \<le> pauseTime ?b" by (simp add: inv_def)
  from b Some have valid: "valid_buffer (store s) cur"
    by (simp add: inv_def before_play_fields)
  have valid': "valid_buffer (snd (derived e cur (store s))) cur"
    using valid derived_take by (rule valid_buffer_grow)
  from b have handlers:
    "\<forall>n<length (nodes s). started (nodes ?b ! n) \<longrightarrow> onended (nodes ?b ! n) \<noteq> None"
    by (simp add: inv_def before_play_fields)
  show ?thesis
    unfolding play_loaded [OF Some off] using off valid' handlers
    by (simp add: inv_def playing_node_def before_play_fields nth_append Some)
qed

lemma inv_loadFile:
  assumes "inv s"
  shows "inv (snd (loadFile decoded s))"
proof (cases decoded)
  case None
  with assms show ?thesis by (simp add: loadFile_def)
next
  case (Some d)
  obtain nc len rate f where d: "d = (nc, len, rate, f)"
    by (cases d) auto
  have "valid_buffer (snd (alloc_buffer nc len rate f (store s)))
      (fst (alloc_buffer nc len rate f (store s)))"
    by (simp add: valid_buffer_def alloc_buffer_def list_all_length nth_append)
  with assms show ?thesis
    by (simp add: loadFile_def Some d split_def Let_def inv_def playing_node_def
        cong: option.case_cong)
qed

subsection \<open>\<open>exportAudio\<close>\<close>

lemma rendered_buffer:
  "fst (rendered render e cur h) =
     \<lparr>sampleRate = sampleRate cur, length_buf = oc_length (offlineCtx e cur),
      chanData = [length (snd (derived e cur h))..<
        length (snd (derived e cur h)) + numberOfChannels cur]\<rparr>"
  by (simp add: rendered_def startRendering_def alloc_buffer_def offlineCtx_def
      OfflineAudioContext_def)

lemma rendered_take: "take (length h) (snd (rendered render e cur h)) = h"
proof -
  let ?h1 = "snd (derived e cur h)"
  have h1: "take (length h) ?h1 = h"
    by (rule derived_take)
  then have "length (take (length h) ?h1) = length h" by simp
  then have "length h \<le> length ?h1" by simp
  with h1 show ?thesis
    by (simp add: rendered_def startRendering_def alloc_buffer_def)
qed

lemma exportAudio_loaded:
  assumes "currentBuffer s = Some cur"
  shows "\<exists>bytes. exportAudio render e s =
       (Inr bytes, s\<lparr>store := snd (rendered render e cur (store s))\<rparr>) \<and>
     length bytes = 44 + oc_length (offlineCtx e cur) * numberOfChannels cur * 2"
proof -
  let ?R = "rendered render e cur (store s)"
  from bufferToWave_Some [of "snd ?R" "fst ?R" "length_buf (fst ?R)"] obtain bytes where
    bytes: "bufferToWave (snd ?R) (fst ?R) (length_buf (fst ?R)) = Some bytes"
      "length bytes = 44 + length_buf (fst ?R) * numberOfChannels (fst ?R) * 2"
    by blast
  have "exportAudio render e s =
      (case bufferToWave (snd ?R) (fst ?R) (length_buf (fst ?R)) of
         None \<Rightarrow> (Inl RangeError, s\<lparr>store := snd ?R\<rparr>)
       | Some bytes \<Rightarrow> (Inr bytes, s\<lparr>store := snd ?R\<rparr>))"
    using assms
    by (simp add: exportAudio_def rendered_def derived_def split_def Let_def
        cong: option.case_cong)
  with bytes show ?thesis
    by (simp add: rendered_buffer numberOfChannels_def)
qed

lemma exportAudio_unloaded:
  assumes "currentBuffer s = None"
  shows "exportAudio render e s = (Inl NoAudioToExport, s)"
  using assms by (simp add: exportAudio_def)

lemma exportAudio_state:
  "snd (exportAudio render e s) =
     (case currentBuffer s of
        None \<Rightarrow> s
      | Some cur \<Rightarrow> s\<lparr>store := snd (rendered render e cur (store s))\<rparr>)"
proof (cases "currentBuffer s")
  case None
  then show ?thesis by (simp add: exportAudio_unloaded)
next
  case (Some cur)
  from exportAudio_loaded [OF this, of render e] show ?thesis
    using Some by auto
qed

lemma exportAudio_store:
  "take (length (store s)) (store (snd (exportAudio render e s))) = store s"
  by (simp add: exportAudio_state rendered_take split: option.splits)

lemma inv_exportAudio:
  assumes "inv s"
  shows "inv (snd (exportAudio render e s))"
proof -
  have "valid_buffer (store (snd (exportAudio render e s))) cur"
    if "valid_buffer (store s) cur" for cur
    using that exportAudio_store by (rule valid_buffer_grow)
  with assms show ?thesis
    by (auto simp: inv_def playing_node_def exportAudio_state split: option.splits)
qed

text \<open>The buffer that \<open>loadFile\<close> makes current.\<close>

lemma loadFile_currentBuffer:
  "currentBuffer (snd (loadFile (Some (nc, len, rate, f)) s)) =
     Some \<lparr>sampleRate = rate, length_buf = len,
       chanData = [length (store s)..<length (store s) + nc]\<rparr>"
  by (simp add: loadFile_def alloc_buffer_def)

lemma odd_engine_buffer: "currentBuffer odd_engine = Some odd_source"
  unfolding odd_engine_def loadFile_currentBuffer
  by (simp add: new_engine_def odd_source_def upt_conv_Cons)

lemma cd_engine_buffer: "currentBuffer cd_engine = Some cd_source"
  unfolding cd_engine_def loadFile_currentBuffer
  by (simp add: new_engine_def cd_source_def upt_conv_Cons)

text \<open>The frame count requested: the integral part of the double \<open>duration * sampleRate\<close>.\<close>

lemma oc_length_offlineCtx:
  "oc_length (offlineCtx e cur) =
     nat \<lfloor>fl (fl (fl (real (length_buf cur) / real (sampleRate cur)) +
       (if 0 < echoFeedback e then 3 else 0)) * real (sampleRate cur))\<rfloor>"
  by (simp add: offlineCtx_def OfflineAudioContext_def export_duration_def duration_def)

text \<open>
  It is the source's frame count plus three seconds of frames when the echo
  feedback is positive, or one frame less.
\<close>

lemma offlineCtx_frames:
  assumes "0 < sampleRate cur" "length_buf cur + 3 * sampleRate cur \<le> 2 ^ 50"
  shows "oc_length (offlineCtx e cur) =
       length_buf cur + (if 0 < echoFeedback e then 3 else 0) * sampleRate cur \<or>
     oc_length (offlineCtx e cur) + 1 =
       length_buf cur + (if 0 < echoFeedback e then 3 else 0) * sampleRate cur"
proof -
  define j :: nat where "j = (if 0 < echoFeedback e then 3 else 0)"
  have t: "(if 0 < echoFeedback e then 3 else 0) = real j"
    by (simp add: j_def)
  have "length_buf cur + j * sampleRate cur \<le> length_buf cur + 3 * sampleRate cur"
    by (simp add: j_def)
  with assms(2) have "length_buf cur + j * sampleRate cur \<le> 2 ^ 50" by (rule order_trans [rotated])
  then have "real (length_buf cur + j * sampleRate cur) \<le> real (2 ^ 50)"
    by (simp only: of_nat_le_iff)
  then have "real (length_buf cur) + real j * real (sampleRate cur) \<le> 2 ^ 50"
    by simp
  from frames_close [OF assms(1) _ this]
  have "\<bar>fl (fl (fl (real (length_buf cur) / real (sampleRate cur)) + real j) *
      real (sampleRate cur)) - real (length_buf cur + j * sampleRate cur)\<bar> \<le> 7 / 8"
    by simp
  then show ?thesis
    unfolding oc_length_offlineCtx t j_def [symmetric] by (rule floor_close)
qed

text \<open>For a source of a whole number of seconds it is exact.\<close>

lemma offlineCtx_whole_seconds:
  assumes "0 < sampleRate cur" "length_buf cur = k * sampleRate cur"
    "(k + 3) * sampleRate cur < 2 ^ 53"
  shows "export_duration e cur = real (k + (if 0 < echoFeedback e then 3 else 0))"
    and "oc_length (offlineCtx e cur) = (k + (if 0 < echoFeedback e then 3 else 0)) * sampleRate cur"
proof -
  define j :: nat where "j = (if 0 < echoFeedback e then 3 else 0)"
  have t: "(if 0 < echoFeedback e then 3 else 0) = real j"
    by (simp add: j_def)
  have "(k + j) * sampleRate cur \<le> (k + 3) * sampleRate cur"
    by (simp add: j_def)
  then have lt: "(k + j) * sampleRate cur < 2 ^ 53"
    using assms(3) by (rule le_less_trans)
  from whole_seconds_frames(1) [OF assms(1) lt]
  show "export_duration e cur = real (k + (if 0 < echoFeedback e then 3 else 0))"
    unfolding export_duration_def duration_def assms(2) t j_def [symmetric] .
  from whole_seconds_frames(2) [OF assms(1) lt]
  show "oc_length (offlineCtx e cur) = (k + (if 0 < echoFeedback e then 3 else 0)) * sampleRate cur"
    unfolding oc_length_offlineCtx assms(2) t j_def [symmetric] by (simp only: floor_of_nat nat_int)
qed

text \<open>The two-second source with feedback 0.5 is rendered to 5 seconds at its 8000 Hz.\<close>

lemma two_seconds_render:
  "duration two_seconds = 2 \<and> export_duration reversed_echo two_seconds = 5 \<and>
   length_buf (fst (rendered render reversed_echo two_seconds h)) = 40000 \<and>
   sampleRate (fst (rendered render reversed_echo two_seconds h)) = 8000 \<and>
   duration (fst (rendered render reversed_echo two_seconds h)) = 5"
proof -
  have r: "0 < sampleRate two_seconds" "length_buf two_seconds = 2 * sampleRate two_seconds"
    "(2 + 3) * sampleRate two_seconds < 2 ^ 53"
    by (simp_all add: two_seconds_def)
  have f: "0 < echoFeedback reversed_echo"
    by (simp add: reversed_echo_def)
  have "fl (real 2) = real 2" "fl (real 5) = real 5"
    by (rule fl_of_nat, simp)+
  then have fl: "fl 2 = 2" "fl 5 = 5" by simp_all
  from offlineCtx_whole_seconds [OF r, of reversed_echo] f fl show ?thesis
    by (simp add: rendered_buffer duration_def two_seconds_def)
qed

subsection \<open>Every reachable state satisfies the invariant\<close>

lemma reachable_inv: "reachable s \<Longrightarrow> inv s"
  by (induction rule: reachable.induct)
    (simp_all add: inv_new inv_loadFile inv_play inv_pause inv_stop inv_updateEffects
      inv_exportAudio inv_advance inv_ended)

text \<open>In a reachable state no host call of \<open>play\<close>, \<open>pause\<close> or \<open>stop\<close> raises.\<close>

lemma reachable_never_throws:
  assumes "reachable s"
  shows "fst (play e onEnded s) = Inr ()" "fst (pause s) = Inr ()" "fst (stop s) = Inr ()"
proof -
  from assms have inv: "inv s" by (rule reachable_inv)
  show "fst (play e onEnded s) = Inr ()"
  proof (cases "currentBuffer s")
    case None
    with inv have "\<not> isPlaying s" by (simp add: inv_def)
    with None show ?thesis by (simp add: play_unloaded)
  next
    case (Some cur)
    from inv have "inv (before_play s)" by (rule inv_before_play)
    then have "0 \<le> pauseTime (before_play s)" by (simp add: inv_def)
    from play_loaded [OF Some this] show ?thesis by simp
  qed
  show "fst (pause s) = Inr ()"
    using inv
    by (auto simp: pause_def and_then_def node_stop_def inv_def playing_node_def
        split: option.splits)
  show "fst (stop s) = Inr ()"
    by (rule stop_returns)
qed

subsection \<open>The current buffer keeps its samples\<close>

lemma canonical_unchanged:
  assumes valid: "valid_buffer h cur" and take: "take (length h) h' = h"
  shows "map (getChannelData h' cur) [0..<numberOfChannels cur] =
     map (getChannelData h cur) [0..<numberOfChannels cur]"
proof (rule map_cong [OF refl])
  fix i assume "i \<in> set [0..<numberOfChannels cur]"
  then have i: "i < numberOfChannels cur" by simp
  from valid i have "chanData cur ! i < length h" by (rule valid_bufferD)
  then have "take (length h) h' ! (chanData cur ! i) = h' ! (chanData cur ! i)" by simp
  with take show "getChannelData h' cur i = getChannelData h cur i"
    by (simp add: getChannelData_def)
qed

lemma play_store:
  assumes "inv s"
  shows "take (length (store s)) (store (snd (play e onEnded s))) = store s"
proof (cases "currentBuffer s")
  case None
  with assms have "\<not> isPlaying s" by (simp add: inv_def)
  with None show ?thesis by (simp add: play_unloaded)
next
  case (Some cur)
  from assms have "inv (before_play s)" by (rule inv_before_play)
  then have off: "0 \<le> pauseTime (before_play s)" by (simp add: inv_def)
  show ?thesis
    unfolding play_loaded [OF Some off] by (simp add: derived_take)
qed

lemma play_reversed_source:
  assumes "inv s" "currentBuffer s = Some cur" "isReversed e"
  shows "sourceNode (snd (play e onEnded s)) = Some (length (nodes s))"
    "buffer (nodes (snd (play e onEnded s)) ! length (nodes s)) = fst (reversedBuffer cur (store s))"
    "store (snd (play e onEnded s)) = snd (reversedBuffer cur (store s))"
proof -
  from assms(1) have "inv (before_play s)" by (rule inv_before_play)
  then have off: "0 \<le> pauseTime (before_play s)" by (simp add: inv_def)
  show "sourceNode (snd (play e onEnded s)) = Some (length (nodes s))"
    "buffer (nodes (snd (play e onEnded s)) ! length (nodes s)) = fst (reversedBuffer cur (store s))"
    "store (snd (play e onEnded s)) = snd (reversedBuffer cur (store s))"
    unfolding play_loaded [OF assms(2) off] using assms(3)
    by (simp_all add: derived_def nth_append before_play_fields)
qed

lemma reversedBuffer_fresh:
  assumes "valid_buffer h cur"
  shows "set (chanData (fst (reversedBuffer cur h))) \<inter> set (chanData cur) = {}"
proof -
  from assms have "\<forall>a\<in>set (chanData cur). a < length h"
    by (simp add: valid_buffer_def list_all_iff)
  then show ?thesis
    by (auto simp: reversedBuffer_chanData)
qed

lemma reversedBuffer_channels:
  assumes "valid_buffer h cur"
  shows "map (getChannelData (snd (reversedBuffer cur h)) (fst (reversedBuffer cur h)))
      [0..<numberOfChannels cur] =
    map (\<lambda>i. rev (getChannelData h cur i)) [0..<numberOfChannels cur]"
  by (rule map_cong [OF refl]) (simp add: reversedBuffer_nth [OF assms])

subsection \<open>Restart, pause and resume\<close>

text \<open>\<open>play\<close> on a running engine is \<open>stop\<close> followed by \<open>play\<close>.\<close>

lemma play_restart:
  assumes "isPlaying s"
  shows "play e onEnded s = play e onEnded (snd (stop s))"
proof -
  have "stop s = (Inr (), snd (stop s))"
    using stop_returns [of s] by (cases "stop s") simp
  with assms show ?thesis
    by (simp add: play_def stop_fields)
qed
text \<open>
  The offset arithmetic of \<open>play\<close> and \<open>pause\<close>: as long as no \<open>ended\<close>
  event is delivered in between, the offsets of successive runs add up.
\<close>

lemma play_then_pause:
  assumes cur: "currentBuffer s = Some cur" and off: "0 \<le> pauseTime (before_play s)"
  shows "fst (pause (advance t (snd (play e onEnded s)))) = Inr ()"
    "pauseTime (snd (pause (advance t (snd (play e onEnded s))))) = pauseTime (before_play s) + t"
    "isPlaying (snd (pause (advance t (snd (play e onEnded s))))) = False"
    "currentBuffer (snd (pause (advance t (snd (play e onEnded s))))) = Some cur"
  unfolding play_loaded [OF cur off]
  by (simp_all add: pause_def advance_def and_then_def node_stop_def before_play_fields
      nth_append cur)

lemma pause_resume_additive:
  assumes cur: "currentBuffer s = Some cur" and off: "0 \<le> pauseTime (before_play s)"
    and t1: "0 \<le> t1"
  shows "pauseTime
      (snd (pause (advance t2 (snd (play e' onEnded'
        (advance gap (snd (pause (advance t1 (snd (play e onEnded s))))))))))) =
    pauseTime (before_play s) + t1 + t2"
proof -
  let ?s1 = "snd (pause (advance t1 (snd (play e onEnded s))))"
  let ?s2 = "advance gap ?s1"
  note first = play_then_pause [OF cur off, of t1 e onEnded]
  have cur2: "currentBuffer ?s2 = Some cur"
    using first(4) by (simp add: advance_def)
  have p2: "pauseTime (before_play ?s2) = pauseTime (before_play s) + t1"
    using first(2,3) by (simp add: before_play_fields advance_def)
  with off t1 have off2: "0 \<le> pauseTime (before_play ?s2)" by simp
  from play_then_pause(2) [OF cur2 off2, of t2 e' onEnded'] p2 show ?thesis
    by simp
qed

text \<open>
  The handler survives \<open>stop\<close> and \<open>pause\<close>: when the host reports the end
  of the source they halted, the callback fires, and the offset that \<open>pause\<close>
  has just stored is reset.
\<close>

lemma halted_source_still_fires:
  assumes cur: "currentBuffer s = Some cur" and off: "0 \<le> pauseTime (before_play s)"
  shows "fired (dispatch_ended (length (nodes s)) (snd (stop (snd (play e onEnded s))))) =
      fired s @ [onEnded]"
    "pauseTime (dispatch_ended (length (nodes s))
       (snd (pause (advance t (snd (play e onEnded s)))))) = 0"
  unfolding play_loaded [OF cur off]
  by (simp_all add: stop_def pause_def advance_def and_then_def node_stop_def dispatch_ended_def
      ended_handler_def before_play_fields nth_append Let_def)

subsection \<open>The scenario engine\<close>

lemma scenario_engine_eq:
  "scenario_engine =
     \<lparr>store = scenario_heap, currentTime = 0, suspended = False, nodes = [], sourceNode = None,
      delayTime = 0, delayTarget = None, feedbackGain = 1, feedbackTarget = None,
      currentBuffer = Some scenario_buffer, startTime = 0, pauseTime = 0, isPlaying = False,
      fired = []\<rparr>"
  by (simp add: scenario_engine_def loadFile_def new_engine_def alloc_buffer_def upt_conv_Cons
      scenario_heap_def scenario_buffer_def)

lemma reachable_scenario_engine: "reachable scenario_engine"
  unfolding scenario_engine_def by (intro r_loadFile r_new)

section \<open>The claims\<close>

text \<open>
  C1. Every float sample is clamped to \<open>[-1, 1]\<close> and then scaled
  asymmetrically: every negative clamped value by 32768, every non-negative one
  by 32767. The encoder tests \<open>0.5 + sample < 0\<close>, so the negative samples
  from \<open>-0.5\<close> on are scaled by 32767: \<open>-0.25\<close> becomes \<open>-8191\<close>, where
  the scaling by 32768 gives \<open>-8192\<close>; and so it is stored, for the buffer of
  44 frames of \<open>1.0\<close> followed by one frame of \<open>-0.25\<close>.
\<close>

theorem C1_quarter_scaled_by_32767:
  "scale (clamp (Fin (- 1 / 4))) = - 8191 \<and> toInt32 (- 1 / 4 * 32768) = - 8192 \<and>
   bufferToWave late_heap late_buffer 45 =
     Some (header 1 8000 134 @ int16_bytes (- 8191) @ replicate 88 0)"
  by (simp add: late_bytes) (simp add: scale_def clamp_def toInt32_def js_trunc_def)

text \<open>
  C2. The one-channel buffer \<open>[1.0, -1.0, 0.0, 0.5]\<close> at 8000 Hz is encoded as a
  44-byte header (channel count 1, sample rate 8000, byte rate 16000, block
  align 2, 16 bits per sample) followed by the 8 payload bytes of the words
  \<open>0x7FFF, 0x8000, 0x0000, 0x4000\<close>. The encoder writes the header as stated,
  and then 8 zero bytes: the loop \<open>while (pos < len)\<close> is entered with the
  \<open>pos = 44\<close> that the header writes have left and with \<open>len = 4\<close>, and writes
  no sample.
\<close>

theorem C2_scenario_payload_is_zero:
  "bufferToWave scenario_heap scenario_buffer 4 =
     Some [0x52, 0x49, 0x46, 0x46, 44, 0, 0, 0, 0x57, 0x41, 0x56, 0x45,
           0x66, 0x6d, 0x74, 0x20, 16, 0, 0, 0, 1, 0, 1, 0,
           0x40, 0x1F, 0, 0, 0x80, 0x3E, 0, 0, 2, 0, 16, 0,
           0x64, 0x61, 0x74, 0x61, 8, 0, 0, 0,
           0, 0, 0, 0, 0, 0, 0, 0] \<and>
   bufferToWave scenario_heap scenario_buffer 4 \<noteq>
     Some (header 1 8000 52 @ le16 0x7FFF @ le16 0x8000 @ le16 0x0000 @ le16 0x4000) \<and>
   write_data channels 1 4 \<lparr>view = v, pos = 44, offset = 0\<rparr> =
     Some \<lparr>view = v, pos = 44, offset = 0\<rparr>"
proof -
  have "write_data channels 1 4 \<lparr>view = v, pos = 44, offset = 0\<rparr> =
      Some \<lparr>view = v, pos = 44, offset = 0\<rparr>"
    by (subst write_data.simps) simp
  then show ?thesis
    by (simp add: scenario_bytes header_def le16_def le32_def)
qed

text \<open>
  C3. The completion callback registered by \<open>play\<close> never fires as a result of
  an explicit stop, and after two calls of \<open>play\<close> in succession the first
  session's callback never fires. The run below: \<open>play\<close> with callback 1,
  \<open>play\<close> with callback 2 (which halts the first source and leaves its
  handler in place), then the host reports the end of the halted first source.
  Callback 1 fires and the running flag is cleared while the second source
  plays. Likewise after \<open>play\<close> and an explicit \<open>stop\<close>: callback 1 fires
  when the host reports the end of the halted source.
\<close>

theorem C3_first_callback_fires_after_restart:
  "(let s1 = snd (play plain 1 scenario_engine);
        s2 = snd (play plain 2 s1);
        s3 = dispatch_ended 0 s2
    in fst (play plain 1 scenario_engine) = Inr () \<and> fst (play plain 2 s1) = Inr () \<and>
       stopped (nodes s2 ! 0) \<and> onended (nodes s2 ! 0) = Some 1 \<and> fired s2 = [] \<and>
       isPlaying s2 \<and>
       fired s3 = [1] \<and> \<not> isPlaying s3 \<and>
       sourceNode s3 = Some 1 \<and> started (nodes s3 ! 1) \<and> \<not> stopped (nodes s3 ! 1) \<and>
       fired (snd (stop s1)) = [] \<and> fired (dispatch_ended 0 (snd (stop s1))) = [1])"
  by (simp add: scenario_engine_eq play_def and_then_def stop_def node_stop_def createSource_def
      node_start_def dispatch_ended_def ended_handler_def plain_def Let_def)

text \<open>
  C4. A session paused after \<open>t1\<close> seconds, resumed and paused again after
  \<open>t2\<close> more seconds has the cumulative offset \<open>t1 + t2\<close>. The run below:
  \<open>play\<close>, one second, \<open>pause\<close> (offset 1), the host reports the end of the
  halted source (the handler resets the offset to 0), five seconds, \<open>play\<close>
  (from offset 0), two seconds, \<open>pause\<close>: the offset is 2, not 3.
\<close>

theorem C4_offset_reset_after_pause:
  "(let s1 = snd (play plain 1 scenario_engine);
        s2 = snd (pause (advance 1 s1));
        s3 = dispatch_ended 0 s2;
        s4 = snd (play plain 1 (advance 5 s3));
        s5 = snd (pause (advance 2 s4))
    in pauseTime s2 = 1 \<and> fired s2 = [] \<and> pauseTime s3 = 0 \<and> fired s3 = [1] \<and>
       startTime s4 = 6 \<and> pauseTime s5 = 2)"
  by (simp add: scenario_engine_eq play_def and_then_def stop_def pause_def advance_def
      node_stop_def createSource_def node_start_def dispatch_ended_def ended_handler_def
      plain_def Let_def)

text \<open>
  C5. With a source loaded, \<open>exportAudio\<close> renders a buffer whose duration is
  the source's duration plus 3 seconds when the echo feedback is greater than
  0, and the source's duration otherwise. The frame count given to the
  \<open>OfflineAudioContext\<close> is the double \<open>duration * sampleRate\<close>, of which the
  context takes the integral part, and the product can fall just below the
  whole number meant. A source of 1001 frames at 8000 Hz with feedback 0 is
  rendered to 1000 frames, an eighth of a second, less than the source's
  duration; a source of 44101 frames at 44100 Hz with feedback 0.5 is rendered
  to 176400 frames, 4 seconds, where 176401 frames were meant.
\<close>

theorem C5_render_one_frame_short:
  "currentBuffer odd_engine = Some odd_source \<and>
   duration odd_source = 4508103226997866 / 2 ^ 55 \<and>
   export_duration plain odd_source = duration odd_source \<and>
   (\<exists>bytes. fst (exportAudio render plain odd_engine) = Inr bytes \<and> length bytes = 44 + 1000 * 2) \<and>
   length_buf (fst (rendered render plain odd_source (store odd_engine))) = 1000 \<and>
   length_buf odd_source = 1001 \<and>
   duration (fst (rendered render plain odd_source (store odd_engine))) = 1 / 8 \<and>
   duration (fst (rendered render plain odd_source (store odd_engine))) < duration odd_source \<and>
   currentBuffer cd_engine = Some cd_source \<and>
   duration cd_source = 2251850874905513 / 2 ^ 51 \<and>
   export_duration reversed_echo cd_source = 1125906289495157 / 2 ^ 48 \<and>
   length_buf (fst (rendered render reversed_echo cd_source (store cd_engine))) = 176400 \<and>
   length_buf cd_source + 3 * sampleRate cd_source = 176401 \<and>
   duration (fst (rendered render reversed_echo cd_source (store cd_engine))) = 4 \<and>
   duration (fst (rendered render reversed_echo cd_source (store cd_engine))) <
     export_duration reversed_echo cd_source"
proof -
  have d1: "fl (1001 / 8000) = 4508103226997866 / 2 ^ 55"
    using fl_binade_down [of "1001 / 8000" 3] by (simp add: round_even_def Let_def)
  have s1: "fl (4508103226997866 / 2 ^ 55) = 4508103226997866 / 2 ^ 55"
    using fl_binade_down [of "4508103226997866 / 2 ^ 55" 3] by (simp add: round_even_def Let_def)
  have p1: "fl (4508103226997866 / 2 ^ 55 * 8000) = 8804889115230207 / 2 ^ 43"
    using fl_binade_up [of 9 "4508103226997866 / 2 ^ 55 * 8000"]
    by (simp add: round_even_def Let_def)
  have r1: "fl (1 / 8) = 1 / 8"
    using fl_binade_down [of "1 / 8" 3] by (simp add: round_even_def Let_def)
  have d2: "fl (44101 / 44100) = 2251850874905513 / 2 ^ 51"
    using fl_binade_up [of 0 "44101 / 44100"] by (simp add: round_even_def Let_def)
  have s2: "fl (2251850874905513 / 2 ^ 51 + 3) = 1125906289495157 / 2 ^ 48"
    using fl_binade_up [of 2 "2251850874905513 / 2 ^ 51 + 3"]
    by (simp add: round_even_def Let_def)
  have p2: "fl (1125906289495157 / 2 ^ 48 * 44100) = 6061092207853567 / 2 ^ 35"
    using fl_binade_up [of 17 "1125906289495157 / 2 ^ 48 * 44100"]
    by (simp add: round_even_def Let_def)
  have r2: "fl 4 = 4"
    using fl_of_nat [of 4] by simp
  have dur1: "duration odd_source = 4508103226997866 / 2 ^ 55"
    unfolding duration_def odd_source_def using d1 by simp
  have exp1: "export_duration plain odd_source = 4508103226997866 / 2 ^ 55"
    unfolding export_duration_def dur1 using s1 by (simp add: plain_def)
  have "real (sampleRate odd_source) = 8000"
    by (simp add: odd_source_def)
  then have "fl (export_duration plain odd_source * real (sampleRate odd_source)) =
      8804889115230207 / 2 ^ 43"
    unfolding exp1 by (simp only: p1)
  then have "oc_length (offlineCtx plain odd_source) = nat \<lfloor>8804889115230207 / (2::real) ^ 43\<rfloor>"
    by (simp only: offlineCtx_def OfflineAudioContext_def offline_ctx.select_convs)
  also have "\<dots> = 1000"
    by simp
  finally have len1: "oc_length (offlineCtx plain odd_source) = 1000" .
  have dur2: "duration cd_source = 2251850874905513 / 2 ^ 51"
    unfolding duration_def cd_source_def using d2 by simp
  have exp2: "export_duration reversed_echo cd_source = 1125906289495157 / 2 ^ 48"
    unfolding export_duration_def dur2 using s2 by (simp add: reversed_echo_def)
  have "real (sampleRate cd_source) = 44100"
    by (simp add: cd_source_def)
  then have "fl (export_duration reversed_echo cd_source * real (sampleRate cd_source)) =
      6061092207853567 / 2 ^ 35"
    unfolding exp2 by (simp only: p2)
  then have "oc_length (offlineCtx reversed_echo cd_source) =
      nat \<lfloor>6061092207853567 / (2::real) ^ 35\<rfloor>"
    by (simp only: offlineCtx_def OfflineAudioContext_def offline_ctx.select_convs)
  also have "\<dots> = 176400"
    by simp
  finally have len2: "oc_length (offlineCtx reversed_echo cd_source) = 176400" .
  have nc: "numberOfChannels odd_source = 1"
    by (simp add: numberOfChannels_def odd_source_def)
  from exportAudio_loaded [OF odd_engine_buffer, of render plain]
  have out: "\<exists>bytes. fst (exportAudio render plain odd_engine) = Inr bytes \<and>
      length bytes = 44 + 1000 * 2"
    unfolding len1 nc by auto
  have rd1: "duration (fst (rendered render plain odd_source (store odd_engine))) = 1 / 8"
    unfolding rendered_buffer len1 duration_def using r1 by (simp add: odd_source_def)
  have rd2: "duration (fst (rendered render reversed_echo cd_source (store cd_engine))) = 4"
    unfolding rendered_buffer len2 duration_def using r2 by (simp add: cd_source_def)
  have rl1: "length_buf (fst (rendered render plain odd_source (store odd_engine))) = 1000"
    unfolding rendered_buffer using len1 by simp
  have rl2: "length_buf (fst (rendered render reversed_echo cd_source (store cd_engine))) = 176400"
    unfolding rendered_buffer using len2 by simp
  have rest: "length_buf odd_source = 1001"
    "length_buf cd_source + 3 * sampleRate cd_source = 176401"
    by (simp_all add: odd_source_def cd_source_def)
  show ?thesis
    unfolding rd1 rd2 rl1 rl2 exp1 exp2 dur1 dur2
    using odd_engine_buffer cd_engine_buffer out rest by simp
qed

text \<open>
  C6. Applying the per-channel reversal twice gives back the original samples:
  the store is as before, and so is every channel of the buffer.
\<close>

theorem C6_reverse_twice:
  "reverseChannels b (reverseChannels b h) = h \<and>
   map (getChannelData (reverseChannels b (reverseChannels b h)) b) [0..<numberOfChannels b] =
     map (getChannelData h b) [0..<numberOfChannels b]"
  by (simp add: reverseChannels_twice)

text \<open>
  C7. When \<open>play\<close> or \<open>exportAudio\<close> is called with the reversed flag set, the
  current buffer stays the current buffer and every one of its channels keeps
  its samples; the buffer given to the source of \<open>play\<close> shares no array with
  it and holds its channels reversed.
\<close>

theorem C7_reversal_on_a_copy:
  assumes "reachable s" "currentBuffer s = Some cur" "isReversed e"
  shows "currentBuffer (snd (play e onEnded s)) = Some cur \<and>
     map (getChannelData (store (snd (play e onEnded s))) cur) [0..<numberOfChannels cur] =
       map (getChannelData (store s) cur) [0..<numberOfChannels cur] \<and>
     set (chanData (buffer (nodes (snd (play e onEnded s)) ! the (sourceNode (snd (play e onEnded s))))))
       \<inter> set (chanData cur) = {} \<and>
     map (getChannelData (store (snd (play e onEnded s)))
          (buffer (nodes (snd (play e onEnded s)) ! the (sourceNode (snd (play e onEnded s))))))
        [0..<numberOfChannels cur] =
       map (\<lambda>i. rev (getChannelData (store s) cur i)) [0..<numberOfChannels cur] \<and>
     currentBuffer (snd (exportAudio render e s)) = Some cur \<and>
     map (getChannelData (store (snd (exportAudio render e s))) cur) [0..<numberOfChannels cur] =
       map (getChannelData (store s) cur) [0..<numberOfChannels cur]"
proof -
  from assms(1) have inv: "inv s" by (rule reachable_inv)
  with assms(2) have valid: "valid_buffer (store s) cur" by (simp add: inv_def)
  have cur_play: "currentBuffer (snd (play e onEnded s)) = Some cur"
  proof -
    from inv have "inv (before_play s)" by (rule inv_before_play)
    then have off: "0 \<le> pauseTime (before_play s)" by (simp add: inv_def)
    show ?thesis
      unfolding play_loaded [OF assms(2) off] by (simp add: before_play_fields assms(2))
  qed
  have same_play:
    "map (getChannelData (store (snd (play e onEnded s))) cur) [0..<numberOfChannels cur] =
       map (getChannelData (store s) cur) [0..<numberOfChannels cur]"
    using valid play_store [OF inv] by (rule canonical_unchanged)
  have cur_export: "currentBuffer (snd (exportAudio render e s)) = Some cur"
    by (simp add: exportAudio_state assms(2))
  have same_export:
    "map (getChannelData (store (snd (exportAudio render e s))) cur) [0..<numberOfChannels cur] =
       map (getChannelData (store s) cur) [0..<numberOfChannels cur]"
    using valid exportAudio_store by (rule canonical_unchanged)
  note src = play_reversed_source [OF inv assms(2) assms(3), of onEnded]
  show ?thesis
    using cur_play same_play cur_export same_export
      reversedBuffer_fresh [OF valid] reversedBuffer_channels [OF valid]
    by (simp add: src)
qed

text \<open>On the scenario engine: the source plays \<open>[0.5, 0, -1, 1]\<close>, the buffer keeps \<open>[1, -1, 0, 0.5]\<close>.\<close>

theorem C7_reversal_on_a_copy_witness:
  "reachable scenario_engine \<and> currentBuffer scenario_engine = Some scenario_buffer \<and>
   isReversed reversed_echo \<and>
   currentBuffer (snd (play reversed_echo 1 scenario_engine)) = Some scenario_buffer \<and>
   map (getChannelData (store (snd (play reversed_echo 1 scenario_engine))) scenario_buffer)
       [0..<numberOfChannels scenario_buffer] =
     [[Fin 1, Fin (- 1), Fin 0, Fin (1 / 2)]] \<and>
   map (getChannelData (store (snd (play reversed_echo 1 scenario_engine)))
        (buffer (nodes (snd (play reversed_echo 1 scenario_engine)) !
           the (sourceNode (snd (play reversed_echo 1 scenario_engine))))))
       [0..<numberOfChannels scenario_buffer] =
     [[Fin (1 / 2), Fin 0, Fin (- 1), Fin 1]] \<and>
   map (getChannelData (store (snd (exportAudio (\<lambda>ctx g h c i. Fin 0) reversed_echo scenario_engine)))
        scenario_buffer) [0..<numberOfChannels scenario_buffer] =
     [[Fin 1, Fin (- 1), Fin 0, Fin (1 / 2)]]"
proof -
  have c: "currentBuffer scenario_engine = Some scenario_buffer"
    by (simp add: scenario_engine_eq)
  have r: "isReversed reversed_echo"
    by (simp add: reversed_echo_def)
  have orig: "map (getChannelData (store scenario_engine) scenario_buffer)
      [0..<numberOfChannels scenario_buffer] = [[Fin 1, Fin (- 1), Fin 0, Fin (1 / 2)]]"
    by (simp add: scenario_engine_eq scenario_buffer_def scenario_heap_def numberOfChannels_def
        getChannelData_def)
  have rev: "map (\<lambda>i. rev (getChannelData (store scenario_engine) scenario_buffer i))
      [0..<numberOfChannels scenario_buffer] = [[Fin (1 / 2), Fin 0, Fin (- 1), Fin 1]]"
    by (simp add: scenario_engine_eq scenario_buffer_def scenario_heap_def numberOfChannels_def
        getChannelData_def)
  from C7_reversal_on_a_copy [OF reachable_scenario_engine c r, of 1 "\<lambda>ctx g h c i. Fin 0"]
  show ?thesis
    using reachable_scenario_engine c r by (simp add: orig rev)
qed

text \<open>
  C8. From any state, \<open>stop\<close> called twice in a row returns normally both
  times, and after each call the offset is zero and the running flag is
  cleared. After the first call the source, if there is one, raises on being
  halted again; the second call catches that.
\<close>

theorem C8_stop_twice:
  "fst (stop s) = Inr () \<and> pauseTime (snd (stop s)) = 0 \<and> \<not> isPlaying (snd (stop s)) \<and>
   (case sourceNode s of
      None \<Rightarrow> True
    | Some n \<Rightarrow> fst (node_stop n (snd (stop s))) = Inl InvalidStateError) \<and>
   fst (stop (snd (stop s))) = Inr () \<and> pauseTime (snd (stop (snd (stop s)))) = 0 \<and>
   \<not> isPlaying (snd (stop (snd (stop s))))"
  by (simp add: stop_returns stop_fields second_halt_raises split: option.splits)

text \<open>
  C9. In a reachable state with no buffer loaded, \<open>play\<close> returns normally and
  \<open>exportAudio\<close> throws its \<open>No audio to export\<close> error; both leave the
  engine as it was.
\<close>

theorem C9_unloaded:
  assumes "reachable s" "currentBuffer s = None"
  shows "play e onEnded s = (Inr (), s) \<and> exportAudio render e s = (Inl NoAudioToExport, s)"
proof -
  from assms(1) have "inv s" by (rule reachable_inv)
  with assms(2) have "\<not> isPlaying s" by (simp add: inv_def)
  with assms(2) show ?thesis
    by (simp add: play_unloaded exportAudio_unloaded)
qed

text \<open>The engine as constructed is such a state.\<close>

theorem C9_unloaded_witness:
  "reachable (new_engine False) \<and> currentBuffer (new_engine False) = None \<and>
   play plain 1 (new_engine False) = (Inr (), new_engine False) \<and>
   exportAudio (\<lambda>ctx g h c i. Fin 0) plain (new_engine False) =
     (Inl NoAudioToExport, new_engine False)"
proof -
  have r: "reachable (new_engine False)" by (rule r_new)
  have n: "currentBuffer (new_engine False) = None" by (simp add: new_engine_def)
  from r n C9_unloaded [OF r n] show ?thesis by simp
qed

text \<open>
  C10, as stated: for every channel count and frame count the RIFF length
  field equals the total length minus 8. The field is 32 bits wide: for
  \<open>2^31\<close> mono frames the total is \<open>2^32 + 44\<close> and the field holds 36.
\<close>

theorem C10_riff_field_wraps:
  "getUint32 4 (the (bufferToWave long_heap long_buffer 2147483648)) \<noteq>
     44 + 2147483648 * numberOfChannels long_buffer * 2 - 8"
proof -
  have nc: "numberOfChannels long_buffer = 1"
    by (simp add: long_buffer_def numberOfChannels_def)
  from bufferToWave_fields [of long_heap long_buffer 2147483648] obtain bytes where
    "bufferToWave long_heap long_buffer 2147483648 = Some bytes"
    "length bytes = 44 + 2147483648 * numberOfChannels long_buffer * 2"
    "getUint32 4 bytes = (length bytes - 8) mod 4294967296"
    by blast
  then show ?thesis
    by (simp add: nc)
qed

text \<open>
  C10, amended: for every buffer, frame count and sample values the encoder
  returns a container of exactly \<open>44 + frames * channels * 2\<close> bytes, whose
  RIFF length field is that total minus 8 modulo \<open>2^32\<close> and whose data-chunk
  length field is \<open>frames * channels * 2\<close> modulo \<open>2^32\<close>.
\<close>

theorem C10_container_length_and_fields:
  "\<exists>bytes. bufferToWave h abuffer len = Some bytes \<and>
     length bytes = 44 + len * numberOfChannels abuffer * 2 \<and>
     getUint32 4 bytes = (length bytes - 8) mod 4294967296 \<and>
     getUint32 40 bytes = (len * numberOfChannels abuffer * 2) mod 4294967296"
  by (rule bufferToWave_fields)

end
